theory Spec2Isabelle
  imports Main
begin

text \<open>
  The core plugin of the documentation preset (\<open>plugins/core.ts\<close>): the merge of the user
  configuration into the default options, the two route callbacks, and the metadata
  that the second callback serializes into the component of the root route. The modules
  the plugin imports are parameters; \<open>JSON.stringify\<close>, \<open>JSON.parse\<close> and the spread of
  object literals are modelled as far as the plugin's output depends on them.
\<close>

section \<open>JavaScript values\<close>

text \<open>
  Plain data as the plugin handles it: configuration values, package.json contents, the
  menu, nav and locale structures. Strings are byte strings (UTF-8); numbers are
  restricted to integers. An object is its list of own properties in insertion order
  (no key is an array index, which JavaScript would enumerate first).
  A value of this type is never assigned to: everything the plugin mutates is a cell of
  the heap below.
\<close>

datatype jsval =
    JUndefined
  | JNull
  | JBool bool
  | JNum int
  | JStr string
  | JArr "jsval list"
  | JObj "(string \<times> jsval) list"

type_synonym props = "(string \<times> jsval) list"

text \<open>ToBoolean: what \<open>if (v)\<close>, \<open>!v\<close> and \<open>v || w\<close> test.\<close>

fun truthy :: "jsval \<Rightarrow> bool" where
  "truthy JUndefined = False"
| "truthy JNull = False"
| "truthy (JBool b) = b"
| "truthy (JNum n) = (n \<noteq> 0)"
| "truthy (JStr s) = (s \<noteq> [])"
| "truthy (JArr vs) = True"
| "truthy (JObj ps) = True"

text \<open>\<open>obj[key]\<close> on a plain object: the own property, \<open>undefined\<close> when there is none.\<close>

definition js_get :: "props \<Rightarrow> string \<Rightarrow> jsval" where
  "js_get ps k = (case map_of ps k of None \<Rightarrow> JUndefined | Some v \<Rightarrow> v)"

text \<open>\<open>a || b\<close>\<close>

definition js_or :: "jsval \<Rightarrow> jsval \<Rightarrow> jsval" where
  "js_or a b = (if truthy a then a else b)"

section \<open>The heap of mutable objects\<close>

text \<open>
  \<open>defaultOpts\<close>, its \<open>resolve\<close> object and every \<open>result\<close> of \<open>mergeUserConfig\<close> are
  objects that the plugin writes to, and \<open>Object.assign\<close> copies references, not objects.
  A property of a heap object holds either data or the address of another heap object.
\<close>

datatype val = Data jsval | Ref nat

type_synonym obj = "(string \<times> val) list"
type_synonym heap = "obj list"

datatype error = TypeError

definition alloc :: "heap \<Rightarrow> obj \<Rightarrow> heap \<times> nat" where
  "alloc h ob = (h @ [ob], length h)"

definition get_prop :: "obj \<Rightarrow> string \<Rightarrow> val" where
  "get_prop ob k = (case map_of ob k of None \<Rightarrow> Data JUndefined | Some v \<Rightarrow> v)"

text \<open>\<open>ob[k] = v\<close>: an existing property keeps its place, a new one goes last.\<close>

fun set_prop :: "obj \<Rightarrow> string \<Rightarrow> val \<Rightarrow> obj" where
  "set_prop [] k v = [(k, v)]"
| "set_prop ((k', v') # ob) k v =
     (if k' = k then (k, v) # ob else (k', v') # set_prop ob k v)"

definition get :: "heap \<Rightarrow> nat \<Rightarrow> string \<Rightarrow> val" where
  "get h a k = (if a < length h then get_prop (h ! a) k else Data JUndefined)"

definition put :: "heap \<Rightarrow> nat \<Rightarrow> string \<Rightarrow> val \<Rightarrow> heap" where
  "put h a k v = (if a < length h then h[a := set_prop (h ! a) k v] else h)"

text \<open>\<open>Object.assign(target, source)\<close>: the own properties of the source, in order.\<close>

definition object_assign :: "obj \<Rightarrow> obj \<Rightarrow> obj" where
  "object_assign target source = foldl (\<lambda>t (k, v). set_prop t k v) target source"

text \<open>
  What a reader of an object sees: its contents, read through references. The depth
  bound only cuts cyclic heaps.
\<close>

fun snapshot :: "nat \<Rightarrow> heap \<Rightarrow> val \<Rightarrow> jsval" where
  "snapshot n h (Data d) = d"
| "snapshot 0 h (Ref a) = JUndefined"
| "snapshot (Suc n) h (Ref a) =
     (if a < length h then JObj (map (\<lambda>kv. (fst kv, snapshot n h (snd kv))) (h ! a))
      else JUndefined)"

section \<open>The host API and the collaborating modules\<close>

record paths =
  cwd :: string
  absPagesPath :: string

text \<open>
  \<open>api.config\<close> holds the keys the first two loops of \<open>mergeUserConfig\<close> read;
  \<open>api.config.resolve\<close> is \<open>None\<close> when undefined, otherwise a plain object;
  \<open>api.userConfig.routes\<close> is \<open>JUndefined\<close> when the user gave none.
\<close>

record api =
  config :: props
  config_resolve :: "props option"
  userConfig_routes :: jsval
  api_paths :: paths

datatype route = Route
  (path: "string option")
  (component: "string option")
  (routes: "route list option")
  (extras: props)

text \<open>
  The imported modules \<open>routes/get*\<close>, \<open>utils/get*\<close> and Node's \<open>path\<close> are parameters.
  They receive \<open>opts\<close> as the content they can read from it.
\<close>

record deps =
  getRouteConfig :: "api \<Rightarrow> jsval \<Rightarrow> route list"
  getDemoRoutes :: "paths \<Rightarrow> route list"
  getMenuFromRoutes :: "route list option \<Rightarrow> jsval \<Rightarrow> paths \<Rightarrow> jsval"
  getLocaleFromRoutes :: "route list option \<Rightarrow> jsval \<Rightarrow> jsval"
  getNavFromRoutes :: "route list option \<Rightarrow> jsval \<Rightarrow> jsval \<Rightarrow> jsval"
  getRepoUrl :: "jsval \<Rightarrow> jsval"
  getHostPkgAlias :: "paths \<Rightarrow> (string \<times> string) list"
  path_join :: "string \<Rightarrow> string \<Rightarrow> string"
  path_relative :: "string \<Rightarrow> string \<Rightarrow> string"

section \<open>mergeUserConfig\<close>

text \<open>\<open>api.config.resolve?.[key]\<close>\<close>

definition config_resolve_key :: "api \<Rightarrow> string \<Rightarrow> jsval" where
  "config_resolve_key a key =
     (case config_resolve a of None \<Rightarrow> JUndefined | Some r \<Rightarrow> js_get r key)"

text \<open>Body of the first loop: \<open>result[key] = api.config[key] || result[key]\<close>.\<close>

definition merge_default_key :: "api \<Rightarrow> nat \<Rightarrow> heap \<Rightarrow> string \<Rightarrow> heap" where
  "merge_default_key a result h key =
     put h result key
       (if truthy (js_get (config a) key) then Data (js_get (config a) key)
        else get h result key)"

text \<open>Body of the second loop: \<open>if (api.config[key]) result[key] = api.config[key]\<close>.\<close>

definition merge_optional_key :: "api \<Rightarrow> nat \<Rightarrow> heap \<Rightarrow> string \<Rightarrow> heap" where
  "merge_optional_key a result h key =
     (if truthy (js_get (config a) key) then put h result key (Data (js_get (config a) key))
      else h)"

text \<open>
  Body of the third loop: \<open>result.resolve[key] = api.config.resolve[key]\<close> when that is
  truthy. The assignment goes to whatever object \<open>result.resolve\<close> refers to. It throws
  when \<open>result.resolve\<close> is \<open>undefined\<close>, \<open>null\<close> or a primitive value, and also on a data
  object, which the model keeps frozen; the plugin's own \<open>resolve\<close> is a heap object.
\<close>

definition merge_resolve_key ::
  "api \<Rightarrow> nat \<Rightarrow> heap \<Rightarrow> string \<Rightarrow> heap \<times> error option" where
  "merge_resolve_key a result h key =
     (if truthy (config_resolve_key a key) then
        (case get h result ''resolve'' of
           Ref r \<Rightarrow>
             if r < length h then (put h r key (Data (config_resolve_key a key)), None)
             else (h, Some TypeError)
         | Data d \<Rightarrow> (h, Some TypeError))
      else (h, None))"

text \<open>\<open>forEach\<close> over a body that may throw: the state reached, and the error if one was thrown.\<close>

fun for_each :: "('s \<Rightarrow> 'k \<Rightarrow> 's \<times> error option) \<Rightarrow> 's \<Rightarrow> 'k list \<Rightarrow> 's \<times> error option" where
  "for_each f s [] = (s, None)"
| "for_each f s (k # ks) =
     (case f s k of (s', Some e) \<Rightarrow> (s', Some e) | (s', None) \<Rightarrow> for_each f s' ks)"

text \<open>
  Returns the heap after the call and either the address of \<open>result\<close> or the error thrown.
  The address of \<open>defaultOpts\<close> is that of a live object.
\<close>

definition mergeUserConfig :: "heap \<Rightarrow> nat \<Rightarrow> api \<Rightarrow> heap \<times> (error + nat)" where
  "mergeUserConfig h dflt a =
     (if dflt < length h then
        (let (h1, result) = alloc h (object_assign [] (h ! dflt));
             h2 = foldl (merge_default_key a result) h1 [''mode'', ''title'', ''locales''];
             h3 = foldl (merge_optional_key a result) h2
                    [''description'', ''logo'', ''menus'', ''navs'']
         in case for_each (merge_resolve_key a result) h3 [''includes'', ''previewLangs''] of
              (h4, Some e) \<Rightarrow> (h4, Inl e)
            | (h4, None) \<Rightarrow>
                (if truthy (userConfig_routes a)
                 then put h4 result ''routes'' (Data (userConfig_routes a))
                 else h4,
                 Inr result))
      else (h, Inl TypeError))"

text \<open>The merged options as the collaborating modules read them.\<close>

definition opts_view :: "heap \<Rightarrow> nat \<Rightarrow> jsval" where
  "opts_view h result = snapshot (length h) h (Ref result)"


text \<open>\<open>v[k]\<close> for a value that was read from \<open>opts\<close>.\<close>

definition js_member :: "jsval \<Rightarrow> string \<Rightarrow> jsval" where
  "js_member v k = (case v of JObj ps \<Rightarrow> js_get ps k | _ \<Rightarrow> JUndefined)"

section \<open>JSON.stringify\<close>

definition digit_char :: "nat \<Rightarrow> char" where
  "digit_char n = ''0123456789abcdef'' ! (n mod 16)"

fun digits :: "nat \<Rightarrow> string" where
  "digits n = (if n < 10 then [digit_char n] else digits (n div 10) @ [digit_char (n mod 10)])"

declare digits.simps [simp del]

definition number_text :: "int \<Rightarrow> string" where
  "number_text i = (if i < 0 then CHR ''-'' # digits (nat (- i)) else digits (nat i))"

text \<open>
  QuoteJSONString: the double quote and the backslash are escaped with a backslash, the
  control characters below U+0020 by their short form or as \<open>\u00xx\<close>.
\<close>

definition escape_char :: "char \<Rightarrow> string" where
  "escape_char c =
     (if c = CHR 0x22 then [CHR 0x5C, CHR 0x22]
      else if c = CHR 0x5C then [CHR 0x5C, CHR 0x5C]
      else if c = CHR 0x08 then [CHR 0x5C, CHR ''b'']
      else if c = CHR 0x0C then [CHR 0x5C, CHR ''f'']
      else if c = CHR 0x0A then [CHR 0x5C, CHR ''n'']
      else if c = CHR 0x0D then [CHR 0x5C, CHR ''r'']
      else if c = CHR 0x09 then [CHR 0x5C, CHR ''t'']
      else if (of_char c :: nat) < 32
        then [CHR 0x5C, CHR ''u'', CHR ''0'', CHR ''0'',
              digit_char (of_char c div 16), digit_char (of_char c mod 16)]
      else [c])"

definition QuoteJSONString :: "string \<Rightarrow> string" where
  "QuoteJSONString s = CHR 0x22 # concat (map escape_char s) @ [CHR 0x22]"

fun join_comma :: "string list \<Rightarrow> string" where
  "join_comma [] = []"
| "join_comma [x] = x"
| "join_comma (x # y # ys) = x @ CHR '','' # join_comma (y # ys)"

text \<open>
  The text of a value inside an array or an object. An \<open>undefined\<close> array element is
  written \<open>null\<close>; a property whose value is \<open>undefined\<close> is left out.
\<close>

fun json_text :: "jsval \<Rightarrow> string" where
  "json_text JUndefined = ''null''"
| "json_text JNull = ''null''"
| "json_text (JBool b) = (if b then ''true'' else ''false'')"
| "json_text (JNum i) = number_text i"
| "json_text (JStr s) = QuoteJSONString s"
| "json_text (JArr vs) = CHR ''['' # join_comma (map json_text vs) @ '']''"
| "json_text (JObj ps) =
     CHR ''{'' #
       join_comma (map (\<lambda>kv. QuoteJSONString (fst kv) @ CHR '':'' # json_text (snd kv))
                    (filter (\<lambda>kv. snd kv \<noteq> JUndefined) ps)) @ ''}''"

text \<open>\<open>JSON.stringify(v)\<close>: \<open>undefined\<close> (here \<open>None\<close>) for \<open>undefined\<close>, a string otherwise.\<close>

definition JSON_stringify :: "jsval \<Rightarrow> string option" where
  "JSON_stringify v = (if v = JUndefined then None else Some (json_text v))"

section \<open>The plugin\<close>

text \<open>\<open>pkg\<close>: the required package.json, \<open>{}\<close> when \<open>require\<close> throws (\<open>None\<close>).\<close>

definition load_pkg :: "props option \<Rightarrow> props" where
  "load_pkg file = (case file of None \<Rightarrow> [] | Some ps \<Rightarrow> ps)"

definition defaultTitle :: "props \<Rightarrow> jsval" where
  "defaultTitle pkg = js_or (js_get pkg ''name'') (JStr ''dumi'')"

definition default_includes :: "deps \<Rightarrow> api \<Rightarrow> string list" where
  "default_includes d a =
     map (\<lambda>(_, pkgPath). path_relative d (cwd (api_paths a)) (path_join d pkgPath ''src''))
       (getHostPkgAlias d (api_paths a)) @ [''docs'']"

text \<open>The second locale label is the UTF-8 text of U+4E2D U+6587.\<close>

definition default_locales :: jsval where
  "default_locales =
     JArr [JArr [JStr ''en-US'', JStr ''English''],
           JArr [JStr ''zh-CN'', JStr [CHR 0xE4, CHR 0xB8, CHR 0xAD, CHR 0xE6, CHR 0x96, CHR 0x87]]]"

text \<open>
  The object literal \<open>defaultOpts\<close>: two objects are created, the inner \<open>resolve\<close> and the
  outer one that refers to it. Returns the heap and the address of \<open>defaultOpts\<close>.
\<close>

definition defaultOpts :: "deps \<Rightarrow> api \<Rightarrow> props \<Rightarrow> heap \<Rightarrow> heap \<times> nat" where
  "defaultOpts d a pkg h =
     (let (h1, resolve) =
            alloc h [(''includes'', Data (JArr (map JStr (default_includes d a)))),
                     (''previewLangs'', Data (JArr [JStr ''jsx'', JStr ''tsx'']))]
      in alloc h1 [(''title'', Data (defaultTitle pkg)),
                   (''resolve'', Ref resolve),
                   (''locales'', Data default_locales),
                   (''mode'', Data (JStr ''doc''))])"

text \<open>
  The state that outlives a callback: the heap and the ambient context written by
  \<open>setContext\<close>. The closure holds \<open>pkg\<close> and the address of \<open>defaultOpts\<close>.
\<close>

record state =
  heap :: heap
  ambient :: "(api \<times> nat) option"

record closure =
  pkg :: props
  dflt_ref :: nat

definition plugin :: "deps \<Rightarrow> api \<Rightarrow> props option \<Rightarrow> state \<times> closure" where
  "plugin d a file =
     (let p = load_pkg file; (h, r) = defaultOpts d a p []
      in (\<lparr>heap = h, ambient = None\<rparr>, \<lparr>pkg = p, dflt_ref = r\<rparr>))"

definition setContext :: "api \<Rightarrow> nat \<Rightarrow> state \<Rightarrow> state" where
  "setContext a opts s = s\<lparr>ambient := Some (a, opts)\<rparr>"

subsection \<open>First pass: onPatchRoutesBefore\<close>

text \<open>\<open>xs.splice(start, n)\<close>, \<open>xs.unshift(...ys)\<close> and \<open>xs.push(...ys)\<close>: the array afterwards.\<close>

definition array_splice :: "'a list \<Rightarrow> nat \<Rightarrow> nat \<Rightarrow> 'a list" where
  "array_splice xs start n = take start xs @ drop (start + n) xs"

definition array_unshift :: "'a list \<Rightarrow> 'a list \<Rightarrow> 'a list" where
  "array_unshift xs ys = ys @ xs"

definition array_push :: "'a list \<Rightarrow> 'a list \<Rightarrow> 'a list" where
  "array_push xs ys = xs @ ys"

definition onPatchRoutesBefore ::
  "deps \<Rightarrow> api \<Rightarrow> closure \<Rightarrow> state \<Rightarrow> route list \<Rightarrow> route option
     \<Rightarrow> state \<times> (error + route list)" where
  "onPatchRoutesBefore d a c s rs parentRoute =
     (case parentRoute of
        Some p \<Rightarrow> (s, Inr rs)
      | None \<Rightarrow>
          (case mergeUserConfig (heap s) (dflt_ref c) a of
             (h', Inl e) \<Rightarrow> (s\<lparr>heap := h'\<rparr>, Inl e)
           | (h', Inr opts) \<Rightarrow>
               (let s' = setContext a opts (s\<lparr>heap := h'\<rparr>);
                    result = getRouteConfig d a (opts_view h' opts);
                    rs1 = array_splice rs 0 (length rs);
                    result' = array_unshift result (getDemoRoutes d (api_paths a));
                    rs2 = array_push rs1 result'
                in (s', Inr rs2))))"

subsection \<open>Second pass: modifyRoutes\<close>

definition is_root :: "route \<Rightarrow> bool" where
  "is_root r = (path r = Some ''/'')"

text \<open>\<open>pkg.repository?.url\<close>: no value other than an object has a property \<open>url\<close>.\<close>

definition repository_url :: "jsval \<Rightarrow> jsval" where
  "repository_url v = (case v of JObj ps \<Rightarrow> js_get ps ''url'' | _ \<Rightarrow> JUndefined)"

definition meta :: "deps \<Rightarrow> api \<Rightarrow> props \<Rightarrow> jsval \<Rightarrow> route list option \<Rightarrow> props" where
  "meta d a p opts childRoutes =
     [(''menus'', getMenuFromRoutes d childRoutes opts (api_paths a)),
      (''locales'', getLocaleFromRoutes d childRoutes opts),
      (''navs'', getNavFromRoutes d childRoutes opts (js_member opts ''navs'')),
      (''title'', js_member opts ''title''),
      (''logo'', js_member opts ''logo''),
      (''desc'', js_member opts ''description''),
      (''mode'', js_member opts ''mode''),
      (''repoUrl'',
         getRepoUrl d (js_or (repository_url (js_get p ''repository'')) (js_get p ''repository'')))]"

text \<open>\<open>JSON.stringify(meta).replace(/"/g, '^')\<close>\<close>

definition escape_quotes :: "string \<Rightarrow> string" where
  "escape_quotes s = map (\<lambda>c. if c = CHR 0x22 then CHR ''^'' else c) s"

definition serialize :: "props \<Rightarrow> string" where
  "serialize m = escape_quotes (json_text (JObj m))"

text \<open>\<open>${root.component}\<close> in a template literal.\<close>

definition template_string :: "string option \<Rightarrow> string" where
  "template_string v = (case v of None \<Rightarrow> ''undefined'' | Some s \<Rightarrow> s)"

text \<open>The template literal assigned to \<open>root.component\<close>, line breaks and indentation included.\<close>

definition root_component :: "string option \<Rightarrow> string \<Rightarrow> string" where
  "root_component target meta_text =
     ''(props) => require('' @ [CHR 0x27] @ ''react'' @ [CHR 0x27] @
     '').createElement(require('' @ [CHR 0x27] @ template_string target @ [CHR 0x27] @
     '').default, {'' @ [CHR 0x0A] @ ''      ...'' @ meta_text @ '','' @ [CHR 0x0A] @
     ''      ...props,'' @ [CHR 0x0A] @ ''    })''"

text \<open>Assignment to a property of the first array element that satisfies \<open>P\<close>.\<close>

fun update_first :: "('a \<Rightarrow> bool) \<Rightarrow> ('a \<Rightarrow> 'a) \<Rightarrow> 'a list \<Rightarrow> 'a list" where
  "update_first P f [] = []"
| "update_first P f (x # xs) = (if P x then f x # xs else x # update_first P f xs)"

definition set_component :: "string \<Rightarrow> route \<Rightarrow> route" where
  "set_component c r = Route (path r) (Some c) (routes r) (extras r)"

text \<open>
  \<open>routes.find\<close> gives \<open>undefined\<close> when no top-level route has the path \<open>/\<close>, and
  \<open>root.routes\<close> then throws, after the options were merged.
\<close>

definition modifyRoutes ::
  "deps \<Rightarrow> api \<Rightarrow> closure \<Rightarrow> state \<Rightarrow> route list \<Rightarrow> state \<times> (error + route list)" where
  "modifyRoutes d a c s rs =
     (case mergeUserConfig (heap s) (dflt_ref c) a of
        (h', Inl e) \<Rightarrow> (s\<lparr>heap := h'\<rparr>, Inl e)
      | (h', Inr opts) \<Rightarrow>
          (case find is_root rs of
             None \<Rightarrow> (s\<lparr>heap := h'\<rparr>, Inl TypeError)
           | Some root \<Rightarrow>
               (let childRoutes = routes root;
                    m = meta d a (pkg c) (opts_view h' opts) childRoutes;
                    code = root_component (component root) (serialize m)
                in (s\<lparr>heap := h'\<rparr>, Inr (update_first is_root (set_component code) rs)))))"

subsection \<open>One generation run\<close>

text \<open>
  The host calls the first pass on the top-level route list, lets other plugins change the
  list (\<open>host\<close>), and then calls the second pass on the list it ends up with.
\<close>

definition generate ::
  "deps \<Rightarrow> api \<Rightarrow> closure \<Rightarrow> (route list \<Rightarrow> route list) \<Rightarrow> route list \<Rightarrow> state
     \<Rightarrow> state \<times> (error + route list)" where
  "generate d a c host rs s =
     (case onPatchRoutesBefore d a c s rs None of
        (s1, Inl e) \<Rightarrow> (s1, Inl e)
      | (s1, Inr rs1) \<Rightarrow> modifyRoutes d a c s1 (host rs1))"

section \<open>The consumer of the serialized metadata\<close>

text \<open>
  Modelled from the spec: the decoding step of the host framework (umi's
  \<open>stripJSONQuote\<close>, named in the source comment at the escape) is not part of this
  repository. It is the inverse of the escape, as the specification has it: every caret
  becomes a double quote again.
\<close>

definition umi_decode :: "string \<Rightarrow> string" where
  "umi_decode s = map (\<lambda>c. if c = CHR ''^'' then CHR 0x22 else c) s"

subsection \<open>JSON.parse\<close>

text \<open>
  The JSON grammar of ECMA-404 on byte strings, numbers restricted to integers as in
  \<^typ>\<open>jsval\<close>. \<open>NotModelled\<close> marks input outside this fragment (a fraction, an exponent,
  a \<open>\u\<close> escape above U+007F); \<open>OutOfFuel\<close> says that the bound on the recursion was
  used up, which does not happen on the text of a value (\<open>JSON_round_trip\<close>).
\<close>

datatype parse_error = SyntaxError | NotModelled | OutOfFuel

definition is_ws :: "char \<Rightarrow> bool" where
  "is_ws c = (c = CHR '' '' \<or> c = CHR 0x09 \<or> c = CHR 0x0A \<or> c = CHR 0x0D)"

definition skip_ws :: "string \<Rightarrow> string" where
  "skip_ws s = dropWhile is_ws s"

definition is_digit :: "char \<Rightarrow> bool" where
  "is_digit c = (48 \<le> (of_char c :: nat) \<and> (of_char c :: nat) \<le> 57)"

definition digit_value :: "char \<Rightarrow> nat" where
  "digit_value c = of_char c - 48"

definition hex_value :: "char \<Rightarrow> nat option" where
  "hex_value c =
     (if is_digit c then Some (of_char c - 48)
      else if 97 \<le> (of_char c :: nat) \<and> (of_char c :: nat) \<le> 102 then Some (of_char c - 87)
      else if 65 \<le> (of_char c :: nat) \<and> (of_char c :: nat) \<le> 70 then Some (of_char c - 55)
      else None)"

text \<open>The character a one-letter escape stands for.\<close>

definition unescape :: "char \<Rightarrow> char option" where
  "unescape e =
     (if e = CHR 0x22 then Some (CHR 0x22)
      else if e = CHR 0x5C then Some (CHR 0x5C)
      else if e = CHR ''/'' then Some (CHR ''/'')
      else if e = CHR ''b'' then Some (CHR 0x08)
      else if e = CHR ''f'' then Some (CHR 0x0C)
      else if e = CHR ''n'' then Some (CHR 0x0A)
      else if e = CHR ''r'' then Some (CHR 0x0D)
      else if e = CHR ''t'' then Some (CHR 0x09)
      else None)"

definition unicode_escape :: "char \<Rightarrow> char \<Rightarrow> char \<Rightarrow> char \<Rightarrow> parse_error + char" where
  "unicode_escape a b c d =
     (case (hex_value a, hex_value b, hex_value c, hex_value d) of
        (Some w, Some x, Some y, Some z) \<Rightarrow>
          if w = 0 \<and> x = 0 \<and> y < 8 then Inr (char_of (16 * y + z)) else Inl NotModelled
      | _ \<Rightarrow> Inl SyntaxError)"

text \<open>The characters of a string literal after its opening quote, and the input left.\<close>

fun parse_chars :: "string \<Rightarrow> parse_error + (string \<times> string)" where
  "parse_chars [] = Inl SyntaxError"
| "parse_chars (c # cs) =
     (if c = CHR 0x22 then Inr ([], cs)
      else if c = CHR 0x5C then
        (case cs of
           [] \<Rightarrow> Inl SyntaxError
         | e # cs' \<Rightarrow>
             if e = CHR ''u'' then
               (case cs' of
                  a # b # c' # d # rest \<Rightarrow>
                    (case unicode_escape a b c' d of
                       Inl err \<Rightarrow> Inl err
                     | Inr u \<Rightarrow>
                         (case parse_chars rest of
                            Inl err \<Rightarrow> Inl err
                          | Inr (s, r) \<Rightarrow> Inr (u # s, r)))
                | _ \<Rightarrow> Inl SyntaxError)
             else
               (case unescape e of
                  None \<Rightarrow> Inl SyntaxError
                | Some u \<Rightarrow>
                    (case parse_chars cs' of
                       Inl err \<Rightarrow> Inl err
                     | Inr (s, r) \<Rightarrow> Inr (u # s, r))))
      else if (of_char c :: nat) < 32 then Inl SyntaxError
      else (case parse_chars cs of
              Inl err \<Rightarrow> Inl err
            | Inr (s, r) \<Rightarrow> Inr (c # s, r)))"

definition digits_value :: "string \<Rightarrow> nat" where
  "digits_value ds = foldl (\<lambda>n c. 10 * n + digit_value c) 0 ds"

text \<open>A fraction or an exponent begins.\<close>

definition starts_fraction :: "string \<Rightarrow> bool" where
  "starts_fraction r =
     (case r of [] \<Rightarrow> False | x # xs \<Rightarrow> x = CHR ''.'' \<or> x = CHR ''e'' \<or> x = CHR ''E'')"

text \<open>An integer: a single \<open>0\<close> or digits that start with a nonzero one.\<close>

definition parse_nat :: "string \<Rightarrow> parse_error + (nat \<times> string)" where
  "parse_nat s =
     (case s of
        [] \<Rightarrow> Inl SyntaxError
      | c # cs \<Rightarrow>
          if \<not> is_digit c then Inl SyntaxError
          else
            (let ds = (if c = CHR ''0'' then [c] else c # takeWhile is_digit cs);
                 r = (if c = CHR ''0'' then cs else dropWhile is_digit cs)
             in if starts_fraction r then Inl NotModelled else Inr (digits_value ds, r)))"

definition parse_number :: "string \<Rightarrow> parse_error + (jsval \<times> string)" where
  "parse_number s =
     (case s of
        [] \<Rightarrow> Inl SyntaxError
      | c # cs \<Rightarrow>
          if c = CHR ''-'' then
            (case parse_nat cs of Inl e \<Rightarrow> Inl e | Inr (n, r) \<Rightarrow> Inr (JNum (- int n), r))
          else
            (case parse_nat s of Inl e \<Rightarrow> Inl e | Inr (n, r) \<Rightarrow> Inr (JNum (int n), r)))"

definition parse_literal :: "string \<Rightarrow> jsval \<Rightarrow> string \<Rightarrow> parse_error + (jsval \<times> string)" where
  "parse_literal word v s =
     (if take (length word) s = word then Inr (v, drop (length word) s) else Inl SyntaxError)"

text \<open>\<open>obj[k] = v\<close> on a plain object: a repeated key keeps its place and takes the new value.\<close>

fun js_set :: "props \<Rightarrow> string \<Rightarrow> jsval \<Rightarrow> props" where
  "js_set [] k v = [(k, v)]"
| "js_set ((k', v') # ps) k v =
     (if k' = k then (k, v) # ps else (k', v') # js_set ps k v)"

definition object_of :: "props \<Rightarrow> props" where
  "object_of members = foldl (\<lambda>ob kv. js_set ob (fst kv) (snd kv)) [] members"

text \<open>
  Values, the elements of a nonempty array after \<open>[\<close> and the members of a nonempty
  object after \<open>{\<close>. The first argument bounds the depth of the recursion.
\<close>

fun parse_value :: "nat \<Rightarrow> string \<Rightarrow> parse_error + (jsval \<times> string)"
  and parse_elements :: "nat \<Rightarrow> string \<Rightarrow> parse_error + (jsval list \<times> string)"
  and parse_members :: "nat \<Rightarrow> string \<Rightarrow> parse_error + (props \<times> string)"
where
  "parse_value 0 s = Inl OutOfFuel"
| "parse_value (Suc n) s =
     (case skip_ws s of
        [] \<Rightarrow> Inl SyntaxError
      | c # cs \<Rightarrow>
          if c = CHR 0x22 then
            (case parse_chars cs of Inl e \<Rightarrow> Inl e | Inr (str, r) \<Rightarrow> Inr (JStr str, r))
          else if c = CHR ''['' then
            (case skip_ws cs of
               [] \<Rightarrow> Inl SyntaxError
             | x # r \<Rightarrow>
                 if x = CHR '']'' then Inr (JArr [], r)
                 else (case parse_elements n cs of
                         Inl e \<Rightarrow> Inl e
                       | Inr (vs, r') \<Rightarrow> Inr (JArr vs, r')))
          else if c = CHR ''{'' then
            (case skip_ws cs of
               [] \<Rightarrow> Inl SyntaxError
             | x # r \<Rightarrow>
                 if x = CHR ''}'' then Inr (JObj [], r)
                 else (case parse_members n cs of
                         Inl e \<Rightarrow> Inl e
                       | Inr (ms, r') \<Rightarrow> Inr (JObj (object_of ms), r')))
          else if c = CHR ''t'' then parse_literal ''true'' (JBool True) (c # cs)
          else if c = CHR ''f'' then parse_literal ''false'' (JBool False) (c # cs)
          else if c = CHR ''n'' then parse_literal ''null'' JNull (c # cs)
          else if c = CHR ''-'' \<or> is_digit c then parse_number (c # cs)
          else Inl SyntaxError)"
| "parse_elements 0 s = Inl OutOfFuel"
| "parse_elements (Suc n) s =
     (case parse_value n s of
        Inl e \<Rightarrow> Inl e
      | Inr (v, r) \<Rightarrow>
          (case skip_ws r of
             [] \<Rightarrow> Inl SyntaxError
           | x # r' \<Rightarrow>
               if x = CHR '','' then
                 (case parse_elements n r' of
                    Inl e \<Rightarrow> Inl e
                  | Inr (vs, r'') \<Rightarrow> Inr (v # vs, r''))
               else if x = CHR '']'' then Inr ([v], r')
               else Inl SyntaxError))"
| "parse_members 0 s = Inl OutOfFuel"
| "parse_members (Suc n) s =
     (case skip_ws s of
        [] \<Rightarrow> Inl SyntaxError
      | q # cs \<Rightarrow>
          if q \<noteq> CHR 0x22 then Inl SyntaxError
          else
            (case parse_chars cs of
               Inl e \<Rightarrow> Inl e
             | Inr (k, r) \<Rightarrow>
                 (case skip_ws r of
                    [] \<Rightarrow> Inl SyntaxError
                  | colon # r1 \<Rightarrow>
                      if colon \<noteq> CHR '':'' then Inl SyntaxError
                      else
                        (case parse_value n r1 of
                           Inl e \<Rightarrow> Inl e
                         | Inr (v, r2) \<Rightarrow>
                             (case skip_ws r2 of
                                [] \<Rightarrow> Inl SyntaxError
                              | x # r3 \<Rightarrow>
                                  if x = CHR '','' then
                                    (case parse_members n r3 of
                                       Inl e \<Rightarrow> Inl e
                                     | Inr (ms, r4) \<Rightarrow> Inr ((k, v) # ms, r4))
                                  else if x = CHR ''}'' then Inr ([(k, v)], r3)
                                  else Inl SyntaxError)))))"

definition JSON_parse :: "string \<Rightarrow> parse_error + jsval" where
  "JSON_parse s =
     (case parse_value (Suc (2 * length s)) s of
        Inl e \<Rightarrow> Inl e
      | Inr (v, r) \<Rightarrow> if skip_ws r = [] then Inr v else Inl SyntaxError)"

subsection \<open>The props at mount time\<close>

text \<open>
  The rewritten component is an arrow function that passes the object literal
  \<open>{ ...L, ...props, }\<close> to \<open>createElement\<close>, where \<open>L\<close> is the serialized metadata as the
  host has decoded it. The two spread elements, in the order of the template:
\<close>

datatype spread_arg = Literal string | Variable string

definition props_spreads :: "string \<Rightarrow> spread_arg list" where
  "props_spreads meta_text = [Literal meta_text, Variable ''props'']"

fun print_spread :: "spread_arg \<Rightarrow> string" where
  "print_spread (Literal text) = ''...'' @ text"
| "print_spread (Variable x) = ''...'' @ x"

text \<open>\<open>{...ob, ...source}\<close>: each own property of the source is set on the object so far.\<close>

definition spread :: "props \<Rightarrow> props \<Rightarrow> props" where
  "spread ob source = foldl (\<lambda>ob kv. js_set ob (fst kv) (snd kv)) ob source"

text \<open>
  The value of the object literal, for the value \<open>runtime\<close> of the parameter \<open>props\<close>. The
  decoded text of a literal is read as JSON; it denotes an object or the module does not
  load.
\<close>

fun eval_spreads :: "props \<Rightarrow> spread_arg list \<Rightarrow> props \<Rightarrow> parse_error + props" where
  "eval_spreads runtime [] ob = Inr ob"
| "eval_spreads runtime (Literal text # args) ob =
     (case JSON_parse (umi_decode text) of
        Inr (JObj m) \<Rightarrow> eval_spreads runtime args (spread ob m)
      | Inr other \<Rightarrow> Inl SyntaxError
      | Inl e \<Rightarrow> Inl e)"
| "eval_spreads runtime (Variable x # args) ob = eval_spreads runtime args (spread ob runtime)"

definition mount_props :: "string \<Rightarrow> props \<Rightarrow> parse_error + props" where
  "mount_props meta_text runtime = eval_spreads runtime (props_spreads meta_text) []"

section \<open>Specification vocabulary\<close>

text \<open>
  What \<open>mergeUserConfig\<close> leaves in \<open>result\<close>, written on the object alone: the three
  loops over \<open>result\<close> and the final \<open>routes\<close> assignment.
\<close>

definition result_default_key :: "api \<Rightarrow> obj \<Rightarrow> string \<Rightarrow> obj" where
  "result_default_key a ob key =
     set_prop ob key
       (if truthy (js_get (config a) key) then Data (js_get (config a) key)
        else get_prop ob key)"

definition result_optional_key :: "api \<Rightarrow> obj \<Rightarrow> string \<Rightarrow> obj" where
  "result_optional_key a ob key =
     (if truthy (js_get (config a) key) then set_prop ob key (Data (js_get (config a) key))
      else ob)"

definition merged_result :: "api \<Rightarrow> obj \<Rightarrow> obj" where
  "merged_result a ob =
     (let o1 = foldl (result_default_key a) ob [''mode'', ''title'', ''locales''];
          o2 = foldl (result_optional_key a) o1 [''description'', ''logo'', ''menus'', ''navs'']
      in if truthy (userConfig_routes a) then set_prop o2 ''routes'' (Data (userConfig_routes a))
         else o2)"

text \<open>What it writes through \<open>result.resolve\<close>, into the object at address \<open>r\<close>.\<close>

definition resolve_write :: "api \<Rightarrow> nat \<Rightarrow> heap \<Rightarrow> string \<Rightarrow> heap" where
  "resolve_write a r h key =
     (if truthy (config_resolve_key a key) then put h r key (Data (config_resolve_key a key))
      else h)"

definition resolve_writes :: "api \<Rightarrow> nat \<Rightarrow> heap \<Rightarrow> heap" where
  "resolve_writes a r h = foldl (resolve_write a r) h [''includes'', ''previewLangs'']"

text \<open>
  The least that \<open>mergeUserConfig\<close> needs of its baseline: a live object with distinct
  keys whose \<open>resolve\<close> property refers to a live object.
\<close>

definition defaults_ok :: "heap \<Rightarrow> nat \<Rightarrow> bool" where
  "defaults_ok h dflt =
     (dflt < length h \<and> distinct (map fst (h ! dflt)) \<and>
      (case get_prop (h ! dflt) ''resolve'' of Ref r \<Rightarrow> r < length h | Data v \<Rightarrow> False))"

text \<open>The options a callback works with: the content of what \<open>mergeUserConfig\<close> returns.\<close>

definition merged_opts :: "heap \<Rightarrow> nat \<Rightarrow> api \<Rightarrow> jsval" where
  "merged_opts h dflt a =
     (case mergeUserConfig h dflt a of
        (h', Inr result) \<Rightarrow> opts_view h' result
      | (h', Inl e) \<Rightarrow> JUndefined)"

text \<open>The user has configured nothing that \<open>mergeUserConfig\<close> reads.\<close>

definition no_user_config :: "api \<Rightarrow> bool" where
  "no_user_config a =
     (list_all (\<lambda>key. js_get (config a) key = JUndefined)
        [''mode'', ''title'', ''locales'', ''description'', ''logo'', ''menus'', ''navs''] \<and>
      list_all (\<lambda>key. config_resolve_key a key = JUndefined) [''includes'', ''previewLangs''] \<and>
      userConfig_routes a = JUndefined)"

text \<open>
  The baseline as the plugin keeps it: apart from the reference to its \<open>resolve\<close> object
  it holds data only, and so does the \<open>resolve\<close> object.
\<close>

definition is_data :: "val \<Rightarrow> bool" where
  "is_data v = (case v of Data d \<Rightarrow> True | Ref a \<Rightarrow> False)"

definition defaults_flat :: "heap \<Rightarrow> nat \<Rightarrow> bool" where
  "defaults_flat h dflt =
     (dflt < length h \<and> distinct (map fst (h ! dflt)) \<and>
      (case get_prop (h ! dflt) ''resolve'' of
         Ref r \<Rightarrow>
           r < length h \<and> list_all (\<lambda>kv. is_data (snd kv)) (h ! r) \<and>
           list_all (\<lambda>kv. is_data (snd kv) \<or> snd kv = Ref r) (h ! dflt)
       | Data v \<Rightarrow> False))"

text \<open>The content of an object that holds data, and of one whose references all lead to \<open>rv\<close>.\<close>

definition data_view :: "obj \<Rightarrow> props" where
  "data_view ob = map (\<lambda>kv. (fst kv, case snd kv of Data v \<Rightarrow> v | Ref a \<Rightarrow> JUndefined)) ob"

definition view_with :: "jsval \<Rightarrow> obj \<Rightarrow> jsval" where
  "view_with rv ob = JObj (map (\<lambda>kv. (fst kv, case snd kv of Data v \<Rightarrow> v | Ref a \<Rightarrow> rv)) ob)"

text \<open>What the second pass returns, given the options it merged.\<close>

definition modified_routes :: "deps \<Rightarrow> api \<Rightarrow> closure \<Rightarrow> jsval \<Rightarrow> route list \<Rightarrow> error + route list" where
  "modified_routes d a c opts rs =
     (case find is_root rs of
        None \<Rightarrow> Inl TypeError
      | Some root \<Rightarrow>
          Inr (update_first is_root
                 (set_component
                    (root_component (component root)
                       (serialize (meta d a (pkg c) opts (routes root))))) rs))"

text \<open>The writes through \<open>result.resolve\<close>, on the object they land in.\<close>

definition resolve_obj :: "api \<Rightarrow> obj \<Rightarrow> obj" where
  "resolve_obj a ob =
     foldl (\<lambda>ob key. if truthy (config_resolve_key a key)
                      then set_prop ob key (Data (config_resolve_key a key)) else ob)
       ob [''includes'', ''previewLangs'']"

text \<open>
  The value that \<open>JSON.parse(JSON.stringify(v))\<close> gives: an \<open>undefined\<close> array element has
  become \<open>null\<close> and a property with the value \<open>undefined\<close> is gone.
\<close>

fun jsonify :: "jsval \<Rightarrow> jsval" where
  "jsonify JUndefined = JNull"
| "jsonify JNull = JNull"
| "jsonify (JBool b) = JBool b"
| "jsonify (JNum i) = JNum i"
| "jsonify (JStr s) = JStr s"
| "jsonify (JArr vs) = JArr (map jsonify vs)"
| "jsonify (JObj ps) =
     JObj (map (\<lambda>kv. (fst kv, jsonify (snd kv))) (filter (\<lambda>kv. snd kv \<noteq> JUndefined) ps))"

text \<open>No object in the value has a key twice, as for every JavaScript object.\<close>

fun wf_keys :: "jsval \<Rightarrow> bool" where
  "wf_keys (JArr vs) = list_all wf_keys vs"
| "wf_keys (JObj ps) = (distinct (map fst ps) \<and> list_all (\<lambda>kv. wf_keys (snd kv)) ps)"
| "wf_keys v = True"

text \<open>No string and no key in the value contains a caret.\<close>

fun caret_free :: "jsval \<Rightarrow> bool" where
  "caret_free (JStr s) = (CHR ''^'' \<notin> set s)"
| "caret_free (JArr vs) = list_all caret_free vs"
| "caret_free (JObj ps) = list_all (\<lambda>kv. CHR ''^'' \<notin> set (fst kv) \<and> caret_free (snd kv)) ps"
| "caret_free v = True"

text \<open>What can follow a value in a JSON text: nothing, a comma or a closing bracket.\<close>

definition value_end :: "string \<Rightarrow> bool" where
  "value_end rest =
     (case rest of [] \<Rightarrow> True | c # cs \<Rightarrow> c = CHR '','' \<or> c = CHR '']'' \<or> c = CHR ''}'')"

section \<open>An example site\<close>

definition example_deps :: deps where
  "example_deps =
     \<lparr>getRouteConfig = (\<lambda>a opts.
          [Route (Some ''/'') (Some ''layout'')
             (Some [Route (Some ''/guide'') (Some ''guide.md'') None []]) []]),
      getDemoRoutes = (\<lambda>p. [Route (Some ''/_demos/button'') (Some ''button.tsx'') None []]),
      getMenuFromRoutes = (\<lambda>childRoutes opts p.
          JArr (case childRoutes of None \<Rightarrow> []
                | Some rs \<Rightarrow> map (\<lambda>r. JStr (template_string (path r))) rs)),
      getLocaleFromRoutes = (\<lambda>childRoutes opts. js_member opts ''locales''),
      getNavFromRoutes = (\<lambda>childRoutes opts navs. navs),
      getRepoUrl = (\<lambda>v. v),
      getHostPkgAlias = (\<lambda>p. [(''button'', ''/site/packages/button'')]),
      path_join = (\<lambda>x y. x @ ''/'' @ y),
      path_relative = (\<lambda>x y. drop (length x + 1) y)\<rparr>"

definition example_paths :: paths where
  "example_paths = \<lparr>cwd = ''/site'', absPagesPath = ''/site/src/pages''\<rparr>"

definition example_api :: api where
  "example_api =
     \<lparr>config = [(''title'', JStr ''Site''), (''description'', JStr [])],
      config_resolve = Some [(''includes'', JArr [JStr ''src''])],
      userConfig_routes = JUndefined,
      api_paths = example_paths\<rparr>"

definition example_heap :: heap where
  "example_heap = heap (fst (plugin example_deps example_api None))"

definition example_closure :: closure where
  "example_closure = snd (plugin example_deps example_api None)"

definition example_merged_heap :: heap where
  "example_merged_heap =
     [[(''includes'', Data (JArr [JStr ''src''])),
       (''previewLangs'', Data (JArr [JStr ''jsx'', JStr ''tsx'']))],
      [(''title'', Data (JStr ''dumi'')), (''resolve'', Ref 0),
       (''locales'', Data default_locales), (''mode'', Data (JStr ''doc''))],
      [(''title'', Data (JStr ''Site'')), (''resolve'', Ref 0),
       (''locales'', Data default_locales), (''mode'', Data (JStr ''doc''))]]"

text \<open>The same site with nothing configured.\<close>

definition plain_api :: api where
  "plain_api =
     \<lparr>config = [], config_resolve = None, userConfig_routes = JUndefined,
      api_paths = example_paths\<rparr>"

text \<open>Another plugin adds a page under the root route between the two passes.\<close>

definition example_host :: "route list \<Rightarrow> route list" where
  "example_host rs =
     map (\<lambda>r. if is_root r
              then Route (path r) (component r)
                     (Some ((case routes r of None \<Rightarrow> [] | Some cs \<Rightarrow> cs) @
                            [Route (Some ''/extra'') (Some ''extra.js'') None []]))
                     (extras r)
              else r) rs"

definition example_state :: state where
  "example_state = \<lparr>heap = example_heap, ambient = None\<rparr>"

definition example_state1 :: state where
  "example_state1 = \<lparr>heap = example_merged_heap, ambient = Some (example_api, 2)\<rparr>"

definition example_routes1 :: "route list" where
  "example_routes1 =
     [Route (Some ''/_demos/button'') (Some ''button.tsx'') None [],
      Route (Some ''/'') (Some ''layout'')
        (Some [Route (Some ''/guide'') (Some ''guide.md'') None []]) []]"

definition example_final_root :: route where
  "example_final_root =
     Route (Some ''/'') (Some ''layout'')
       (Some [Route (Some ''/guide'') (Some ''guide.md'') None [],
              Route (Some ''/extra'') (Some ''extra.js'') None []]) []"

text \<open>The example site with a caret in its configured title.\<close>

definition caret_api :: api where
  "caret_api =
     \<lparr>config = [(''title'', JStr ''Docs ^ Demos'')],
      config_resolve = None,
      userConfig_routes = JUndefined,
      api_paths = example_paths\<rparr>"

definition caret_meta :: props where
  "caret_meta =
     meta example_deps caret_api (pkg example_closure)
       (merged_opts example_heap (dflt_ref example_closure) caret_api)
       (Some [Route (Some ''/guide'') (Some ''guide.md'') None []])"

text \<open>A configured title whose carets close the string and open a property of their own.\<close>

definition forged_api :: api where
  "forged_api =
     \<lparr>config = [(''title'', JStr ''Docs^,^logo^:^/evil.png'')],
      config_resolve = None,
      userConfig_routes = JUndefined,
      api_paths = example_paths\<rparr>"

definition forged_meta :: props where
  "forged_meta =
     meta example_deps forged_api (pkg example_closure)
       (merged_opts example_heap (dflt_ref example_closure) forged_api)
       (Some [Route (Some ''/guide'') (Some ''guide.md'') None []])"

definition example_runtime :: props where
  "example_runtime = [(''mode'', JStr ''site''), (''lang'', JStr ''en'')]"

definition example_meta :: props where
  "example_meta =
     [(''menus'', JArr [JStr ''/guide'']), (''title'', JStr ''Site''), (''logo'', JUndefined),
      (''mode'', JStr ''doc'')]"

section \<open>Properties of the heap operations\<close>

lemma set_prop_fresh: "k \<notin> fst ` set ob \<Longrightarrow> set_prop ob k v = ob @ [(k, v)]"
  by (induction ob) auto

lemma assign_append:
  "distinct (map fst (t @ ob)) \<Longrightarrow> foldl (\<lambda>t (k, v). set_prop t k v) t ob = t @ ob"
proof (induction ob arbitrary: t)
  case Nil
  then show ?case by simp
next
  case (Cons kv ob)
  obtain k v where kv: "kv = (k, v)" by (cases kv)
  from Cons.prems kv have fresh: "k \<notin> fst ` set t" by auto
  from Cons.prems kv have "distinct (map fst ((t @ [(k, v)]) @ ob))" by auto
  from Cons.IH [OF this] fresh kv show ?case by (simp add: set_prop_fresh)
qed

lemma object_assign_copy: "distinct (map fst ob) \<Longrightarrow> object_assign [] ob = ob"
  using assign_append [of "[]" ob] by (simp add: object_assign_def)

lemma get_prop_set_prop:
  "get_prop (set_prop ob k v) k' = (if k' = k then v else get_prop ob k')"
  by (induction ob) (auto simp: get_prop_def)

lemma keys_set_prop:
  "map fst (set_prop ob k v) = (if k \<in> fst ` set ob then map fst ob else map fst ob @ [k])"
  by (induction ob) (force simp: image_iff)+

lemma put_last: "put (h @ [ob]) (length h) k v = h @ [set_prop ob k v]"
  by (simp add: put_def)

lemma get_last: "get (h @ [ob]) (length h) k = get_prop ob k"
  by (simp add: get_def)

lemma put_before: "r < length h \<Longrightarrow> put (h @ [ob]) r k v = put h r k v @ [ob]"
  by (simp add: put_def list_update_append nth_append)

lemma length_put: "length (put h r k v) = length h"
  by (simp add: put_def)

lemma get_put:
  "r < length h \<Longrightarrow>
   get (put h r k v) r' k' = (if r' = r \<and> k' = k then v else get h r' k')"
  by (auto simp: get_def put_def get_prop_set_prop nth_list_update)

text \<open>\<open>meta\<close> is an object, so \<open>JSON.stringify(meta)\<close> is a string: the text of the object.\<close>

lemma JSON_stringify_object: "JSON_stringify (JObj m) = Some (json_text (JObj m))"
  by (simp add: JSON_stringify_def)

section \<open>What mergeUserConfig computes\<close>

lemma merge_default_key_last:
  "merge_default_key a (length h) (h @ [ob]) key = h @ [result_default_key a ob key]"
  by (simp add: merge_default_key_def result_default_key_def put_last get_last)

lemma merge_optional_key_last:
  "merge_optional_key a (length h) (h @ [ob]) key = h @ [result_optional_key a ob key]"
  by (simp add: merge_optional_key_def result_optional_key_def put_last)

lemma merge_resolve_key_last:
  "get_prop ob ''resolve'' = Ref r \<Longrightarrow> r < length h \<Longrightarrow>
   merge_resolve_key a (length h) (h @ [ob]) key = (resolve_write a r h key @ [ob], None)"
  by (simp add: merge_resolve_key_def resolve_write_def get_last put_before)

lemma length_resolve_write: "length (resolve_write a r h key) = length h"
  by (simp add: resolve_write_def length_put)

lemma length_resolve_writes: "length (resolve_writes a r h) = length h"
  by (simp add: resolve_writes_def length_resolve_write)

lemma resolve_kept:
  "get_prop (foldl (result_optional_key a)
       (foldl (result_default_key a) ob [''mode'', ''title'', ''locales''])
       [''description'', ''logo'', ''menus'', ''navs'']) ''resolve'' = get_prop ob ''resolve''"
  by (simp add: result_default_key_def result_optional_key_def get_prop_set_prop)

text \<open>
  On a baseline that is in order the call returns a fresh object, at the address
  \<open>length h\<close>; the heap below that address changes by the writes through \<open>resolve\<close> only.
\<close>

lemma mergeUserConfig_eq:
  assumes ok: "defaults_ok h dflt" and r: "get_prop (h ! dflt) ''resolve'' = Ref r"
  shows "mergeUserConfig h dflt a =
           (resolve_writes a r h @ [merged_result a (h ! dflt)], Inr (length h))"
proof -
  from ok r have lt: "dflt < length h" and dist: "distinct (map fst (h ! dflt))"
    and rlt: "r < length h"
    by (auto simp: defaults_ok_def)
  define o2 where "o2 = foldl (result_optional_key a)
       (foldl (result_default_key a) (h ! dflt) [''mode'', ''title'', ''locales''])
       [''description'', ''logo'', ''menus'', ''navs'']"
  have res: "get_prop o2 ''resolve'' = Ref r"
    unfolding o2_def using r by (simp only: resolve_kept)
  have loops12: "foldl (merge_optional_key a (length h))
          (foldl (merge_default_key a (length h)) (h @ [h ! dflt]) [''mode'', ''title'', ''locales''])
          [''description'', ''logo'', ''menus'', ''navs''] = h @ [o2]"
    unfolding o2_def by (simp add: merge_default_key_last merge_optional_key_last)
  have 1: "merge_resolve_key a (length h) (h @ [o2]) ''includes''
             = (resolve_write a r h ''includes'' @ [o2], None)"
    by (rule merge_resolve_key_last [OF res rlt])
  have 2: "merge_resolve_key a (length h) (resolve_write a r h ''includes'' @ [o2]) ''previewLangs''
             = (resolve_write a r (resolve_write a r h ''includes'') ''previewLangs'' @ [o2], None)"
    using merge_resolve_key_last [of o2 r "resolve_write a r h ''includes''" a "''previewLangs''"]
      res rlt by (simp add: length_resolve_write)
  have loop3: "for_each (merge_resolve_key a (length h)) (h @ [o2]) [''includes'', ''previewLangs'']
        = (resolve_writes a r h @ [o2], None)"
    by (simp add: 1 2 resolve_writes_def)
  have fin: "put (resolve_writes a r h @ [o2]) (length h) ''routes'' v
           = resolve_writes a r h @ [set_prop o2 ''routes'' v]" for v
    using put_last [of "resolve_writes a r h" o2 "''routes''" v]
    by (simp add: length_resolve_writes)
  have m: "merged_result a (h ! dflt) =
      (if truthy (userConfig_routes a) then set_prop o2 ''routes'' (Data (userConfig_routes a)) else o2)"
    by (simp only: merged_result_def o2_def Let_def)
  show ?thesis
    unfolding mergeUserConfig_def
    using lt by (simp only: alloc_def object_assign_copy [OF dist] loops12 loop3 fin m Let_def
        if_True prod.case option.case split: if_splits) simp
qed

lemma defaults_ok_resolve:
  "defaults_ok h dflt \<Longrightarrow> \<exists>r. get_prop (h ! dflt) ''resolve'' = Ref r \<and> r < length h"
  by (auto simp: defaults_ok_def split: val.splits)

lemma mergeUserConfig_returns:
  "defaults_ok h dflt \<Longrightarrow> \<exists>h'. mergeUserConfig h dflt a = (h', Inr (length h))"
  using defaults_ok_resolve [of h dflt] mergeUserConfig_eq [of h dflt _ a] by blast

lemma example_defaults_ok: "defaults_ok example_heap (dflt_ref example_closure)"
  by (simp add: example_heap_def example_closure_def plugin_def defaultOpts_def alloc_def
      load_pkg_def defaults_ok_def get_prop_def Let_def)

section \<open>The first route pass\<close>

text \<open>
  C10. When the first pass is called with a parent route (a nested patch), it does
  nothing: the route list and the plugin's state after the callback are those before it.
\<close>

theorem onPatchRoutesBefore_nested_unchanged:
  "onPatchRoutesBefore d a c s rs (Some parentRoute) = (s, Inr rs)"
  by (simp add: onPatchRoutesBefore_def)

text \<open>
  C6. Called at the top level (no parent route) on a baseline that is in order, the first
  pass returns, and the route list is then the demo routes of the external generator
  followed by the generated doc routes; none of the routes it was given is left.
\<close>

theorem onPatchRoutesBefore_top_level:
  assumes "defaults_ok (heap s) (dflt_ref c)"
  shows "snd (onPatchRoutesBefore d a c s rs None) =
           Inr (getDemoRoutes d (api_paths a) @
                getRouteConfig d a (merged_opts (heap s) (dflt_ref c) a))"
proof -
  from mergeUserConfig_returns [OF assms, of a]
  obtain h' where m: "mergeUserConfig (heap s) (dflt_ref c) a = (h', Inr (length (heap s)))"
    by blast
  show ?thesis
    by (simp add: onPatchRoutesBefore_def m merged_opts_def Let_def
        array_splice_def array_unshift_def array_push_def)
qed

theorem onPatchRoutesBefore_top_level_witness:
  "defaults_ok example_heap (dflt_ref example_closure) \<and>
   snd (onPatchRoutesBefore example_deps example_api example_closure
          \<lparr>heap = example_heap, ambient = None\<rparr>
          [Route (Some ''/old'') (Some ''old.js'') None []] None) =
     Inr [Route (Some ''/_demos/button'') (Some ''button.tsx'') None [],
          Route (Some ''/'') (Some ''layout'')
            (Some [Route (Some ''/guide'') (Some ''guide.md'') None []]) []]"
  using onPatchRoutesBefore_top_level [of "\<lparr>heap = example_heap, ambient = None\<rparr>"
      example_closure example_deps example_api "[Route (Some ''/old'') (Some ''old.js'') None []]"]
    example_defaults_ok
  by (simp add: example_deps_def)

lemma get_default_key:
  "get_prop (result_default_key a ob k) key =
     (if key = k then (if truthy (js_get (config a) k) then Data (js_get (config a) k)
                       else get_prop ob k)
      else get_prop ob key)"
  by (simp add: result_default_key_def get_prop_set_prop)

lemma get_optional_key:
  "get_prop (result_optional_key a ob k) key =
     (if key = k \<and> truthy (js_get (config a) k) then Data (js_get (config a) k)
      else get_prop ob key)"
  by (simp add: result_optional_key_def get_prop_set_prop)

lemma get_merged_result:
  "get_prop (merged_result a ob) key =
     (if key = ''routes'' \<and> truthy (userConfig_routes a) then Data (userConfig_routes a)
      else get_prop (foldl (result_optional_key a)
             (foldl (result_default_key a) ob [''mode'', ''title'', ''locales''])
             [''description'', ''logo'', ''menus'', ''navs'']) key)"
  by (simp add: merged_result_def Let_def get_prop_set_prop)

lemma get_append_last: "length hw = n \<Longrightarrow> get (hw @ [ob]) n key = get_prop ob key"
  by (auto simp: get_def)

lemma get_append_before: "r < length hw \<Longrightarrow> get (hw @ [ob]) r key = get hw r key"
  by (simp add: get_def nth_append)

lemma resolve_writes_get:
  "r < length h \<Longrightarrow>
   get (resolve_writes a r h) r' key =
     (if r' = r \<and> key \<in> set [''includes'', ''previewLangs''] \<and> truthy (config_resolve_key a key)
      then Data (config_resolve_key a key) else get h r' key)"
  by (auto simp: resolve_writes_def resolve_write_def get_put length_put)

lemma example_heap_eq:
  "example_heap =
     [[(''includes'', Data (JArr [JStr ''packages/button/src'', JStr ''docs''])),
       (''previewLangs'', Data (JArr [JStr ''jsx'', JStr ''tsx'']))],
      [(''title'', Data (JStr ''dumi'')), (''resolve'', Ref 0),
       (''locales'', Data default_locales), (''mode'', Data (JStr ''doc''))]]"
  by (simp add: example_heap_def plugin_def defaultOpts_def alloc_def load_pkg_def Let_def
      default_includes_def example_deps_def example_api_def example_paths_def defaultTitle_def
      js_or_def js_get_def)

lemma example_dflt_ref: "dflt_ref example_closure = 1"
  by (simp add: example_closure_def plugin_def defaultOpts_def alloc_def Let_def)

lemma example_merge:
  "mergeUserConfig example_heap 1 example_api = (example_merged_heap, Inr 2)"
  unfolding example_heap_eq example_merged_heap_def example_api_def by code_simp

section \<open>The merged options\<close>

text \<open>
  C8. For every user configuration and every baseline that is in order, \<open>mergeUserConfig\<close>
  returns a new object in which: \<open>mode\<close>, \<open>title\<close> and \<open>locales\<close> hold the configured
  value when that is truthy and the baseline's value otherwise; \<open>description\<close>, \<open>logo\<close>,
  \<open>menus\<close> and \<open>navs\<close> hold the configured value when that is truthy, hence only when one
  is present, and otherwise what the baseline has (nothing, for the plugin's baseline);
  \<open>resolve.includes\<close> and \<open>resolve.previewLangs\<close> hold the configured value when that is
  truthy, as every configured list is, and the previous value when none is configured;
  \<open>routes\<close> holds the user's routes configuration when there is one.
\<close>

theorem mergeUserConfig_merges:
  assumes ok: "defaults_ok h dflt" and res: "get h dflt ''resolve'' = Ref r"
    and run: "mergeUserConfig h dflt a = (h', out)"
  shows "out = Inr (length h) \<and>
    (\<forall>key \<in> set [''mode'', ''title'', ''locales''].
       get h' (length h) key =
         (if truthy (js_get (config a) key) then Data (js_get (config a) key)
          else get h dflt key)) \<and>
    (\<forall>key \<in> set [''description'', ''logo'', ''menus'', ''navs''].
       get h' (length h) key =
         (if truthy (js_get (config a) key) then Data (js_get (config a) key)
          else get h dflt key) \<and>
       (js_get (config a) key = JUndefined \<longrightarrow> get h' (length h) key = get h dflt key)) \<and>
    get h' (length h) ''resolve'' = Ref r \<and>
    (\<forall>key \<in> set [''includes'', ''previewLangs''].
       get h' r key =
         (if truthy (config_resolve_key a key) then Data (config_resolve_key a key)
          else get h r key) \<and>
       (\<forall>vs. config_resolve_key a key = JArr vs \<longrightarrow> get h' r key = Data (JArr vs)) \<and>
       (config_resolve_key a key = JUndefined \<longrightarrow> get h' r key = get h r key)) \<and>
    get h' (length h) ''routes'' =
      (if truthy (userConfig_routes a) then Data (userConfig_routes a)
       else get h dflt ''routes'') \<and>
    (\<forall>vs. userConfig_routes a = JArr vs \<longrightarrow> get h' (length h) ''routes'' = Data (JArr vs))"
proof -
  from ok have lt: "dflt < length h" by (simp add: defaults_ok_def)
  with res have r: "get_prop (h ! dflt) ''resolve'' = Ref r" by (simp add: get_def)
  with ok have rlt: "r < length h" by (simp add: defaults_ok_def)
  from mergeUserConfig_eq [OF ok r, of a] run
  have h': "h' = resolve_writes a r h @ [merged_result a (h ! dflt)]"
    and out: "out = Inr (length h)" by simp_all
  have at_result: "get h' (length h) key = get_prop (merged_result a (h ! dflt)) key" for key
    unfolding h' by (rule get_append_last) (rule length_resolve_writes)
  have at_r: "get h' r key = get (resolve_writes a r h) r key" for key
    unfolding h' using rlt by (simp add: get_append_before length_resolve_writes)
  have dflt: "get h dflt key = get_prop (h ! dflt) key" for key
    using lt by (simp add: get_def)
  show ?thesis
    using r by (simp add: out at_result at_r dflt get_merged_result get_default_key get_optional_key
        resolve_writes_get [OF rlt])
qed

theorem mergeUserConfig_merges_witness:
  "defaults_ok example_heap 1 \<and> get example_heap 1 ''resolve'' = Ref 0 \<and>
   mergeUserConfig example_heap 1 example_api = (example_merged_heap, Inr 2) \<and>
   get example_merged_heap 2 ''title'' = Data (JStr ''Site'') \<and>
   get example_merged_heap 2 ''mode'' = Data (JStr ''doc'') \<and>
   get example_merged_heap 2 ''description'' = Data JUndefined \<and>
   get example_merged_heap 0 ''includes'' = Data (JArr [JStr ''src'']) \<and>
   get example_merged_heap 0 ''previewLangs'' = Data (JArr [JStr ''jsx'', JStr ''tsx''])"
proof -
  have ok: "defaults_ok example_heap 1"
    using example_defaults_ok by (simp add: example_dflt_ref)
  have res: "get example_heap 1 ''resolve'' = Ref 0"
    unfolding example_heap_eq by code_simp
  have cfg: "js_get (config example_api) ''title'' = JStr ''Site''"
    "js_get (config example_api) ''mode'' = JUndefined"
    "js_get (config example_api) ''description'' = JStr []"
    "config_resolve_key example_api ''includes'' = JArr [JStr ''src'']"
    "config_resolve_key example_api ''previewLangs'' = JUndefined"
    unfolding example_api_def by code_simp+
  have old: "get example_heap (Suc 0) ''mode'' = Data (JStr ''doc'')"
    "get example_heap (Suc 0) ''description'' = Data JUndefined"
    "get example_heap 0 ''previewLangs'' = Data (JArr [JStr ''jsx'', JStr ''tsx''])"
    "length example_heap = 2"
    unfolding example_heap_eq by code_simp+
  from mergeUserConfig_merges [OF ok res example_merge] ok res example_merge
  show ?thesis by (simp add: cfg old)
qed

text \<open>
  C9. When the user has configured nothing, the options merged from the plugin's fresh
  \<open>defaultOpts\<close> are the defaults: \<open>title\<close> is the \<open>name\<close> of package.json, \<open>dumi\<close> when the
  file cannot be loaded (or names nothing); \<open>resolve.includes\<close> lists, for each host
  package, its \<open>src\<close> directory relative to the working directory, then \<open>docs\<close>;
  \<open>resolve.previewLangs\<close> is \<open>jsx, tsx\<close>; \<open>locales\<close> is the English and the Chinese pair;
  \<open>mode\<close> is \<open>doc\<close>. The merged options read the same as \<open>defaultOpts\<close> itself.
\<close>

theorem defaults_without_user_config:
  assumes none: "no_user_config a"
  shows "mergeUserConfig (heap (fst (plugin d a file))) (dflt_ref (snd (plugin d a file))) a
           = (heap (fst (plugin d a file)) @
                [[(''title'', Data (defaultTitle (load_pkg file))), (''resolve'', Ref 0),
                  (''locales'', Data default_locales), (''mode'', Data (JStr ''doc''))]],
              Inr 2) \<and>
         merged_opts (heap (fst (plugin d a file))) (dflt_ref (snd (plugin d a file))) a =
           JObj [(''title'',
                    (case file of None \<Rightarrow> JStr ''dumi''
                     | Some p \<Rightarrow> js_or (js_get p ''name'') (JStr ''dumi''))),
                 (''resolve'',
                    JObj [(''includes'',
                             JArr (map JStr
                               (map (\<lambda>(name, pkgPath).
                                       path_relative d (cwd (api_paths a)) (path_join d pkgPath ''src''))
                                  (getHostPkgAlias d (api_paths a)) @ [''docs'']))),
                          (''previewLangs'', JArr [JStr ''jsx'', JStr ''tsx''])]),
                 (''locales'',
                    JArr [JArr [JStr ''en-US'', JStr ''English''],
                          JArr [JStr ''zh-CN'',
                                JStr [CHR 0xE4, CHR 0xB8, CHR 0xAD, CHR 0xE6, CHR 0x96, CHR 0x87]]]),
                 (''mode'', JStr ''doc'')] \<and>
         merged_opts (heap (fst (plugin d a file))) (dflt_ref (snd (plugin d a file))) a =
           opts_view (heap (fst (plugin d a file))) (dflt_ref (snd (plugin d a file)))"
proof -
  define R :: obj where "R = [(''includes'', Data (JArr (map JStr (default_includes d a)))),
                     (''previewLangs'', Data (JArr [JStr ''jsx'', JStr ''tsx'']))]"
  define D :: obj where "D = [(''title'', Data (defaultTitle (load_pkg file))), (''resolve'', Ref 0),
                  (''locales'', Data default_locales), (''mode'', Data (JStr ''doc''))]"
  have h: "heap (fst (plugin d a file)) = [R, D]"
    and c: "dflt_ref (snd (plugin d a file)) = 1"
    by (simp_all add: plugin_def defaultOpts_def alloc_def Let_def R_def D_def)
  from none have cfg: "js_get (config a) ''mode'' = JUndefined"
    "js_get (config a) ''title'' = JUndefined" "js_get (config a) ''locales'' = JUndefined"
    "js_get (config a) ''description'' = JUndefined" "js_get (config a) ''logo'' = JUndefined"
    "js_get (config a) ''menus'' = JUndefined" "js_get (config a) ''navs'' = JUndefined"
    "config_resolve_key a ''includes'' = JUndefined"
    "config_resolve_key a ''previewLangs'' = JUndefined"
    "userConfig_routes a = JUndefined"
    by (simp_all add: no_user_config_def)
  have ok: "defaults_ok [R, D] 1" and r: "get_prop ([R, D] ! 1) ''resolve'' = Ref 0"
    by (simp_all add: defaults_ok_def D_def get_prop_def)
  have w: "resolve_writes a 0 [R, D] = [R, D]"
    by (simp add: resolve_writes_def resolve_write_def cfg)
  have m: "merged_result a D = D"
    by (simp add: merged_result_def result_default_key_def result_optional_key_def cfg D_def
        get_prop_def)
  have run: "mergeUserConfig [R, D] 1 a = ([R, D, D], Inr 2)"
    using mergeUserConfig_eq [OF ok r, of a] by (simp add: w m)
  have title: "defaultTitle (load_pkg file) =
      (case file of None \<Rightarrow> JStr ''dumi'' | Some p \<Rightarrow> js_or (js_get p ''name'') (JStr ''dumi''))"
    by (simp add: defaultTitle_def load_pkg_def js_or_def js_get_def split: option.splits)
  have three: "Suc (Suc (Suc 0)) = 3" by simp
  have v: "opts_view [R, D, D] 2 =
       JObj [(''title'', defaultTitle (load_pkg file)),
             (''resolve'', JObj [(''includes'', JArr (map JStr (default_includes d a))),
                                 (''previewLangs'', JArr [JStr ''jsx'', JStr ''tsx''])]),
             (''locales'', default_locales), (''mode'', JStr ''doc'')]"
    by (simp add: opts_view_def R_def D_def)
  have v0: "opts_view [R, D] 1 = opts_view [R, D, D] 2"
    by (simp add: opts_view_def R_def D_def)
  have mo: "merged_opts [R, D] 1 a = opts_view [R, D, D] 2"
    by (simp only: merged_opts_def run prod.case sum.case)
  have 1: "mergeUserConfig [R, D] 1 a =
      ([R, D] @ [[(''title'', Data (defaultTitle (load_pkg file))), (''resolve'', Ref 0),
                  (''locales'', Data default_locales), (''mode'', Data (JStr ''doc''))]], Inr 2)"
    unfolding D_def [symmetric] using run by simp
  have 2: "merged_opts [R, D] 1 a =
           JObj [(''title'',
                    (case file of None \<Rightarrow> JStr ''dumi''
                     | Some p \<Rightarrow> js_or (js_get p ''name'') (JStr ''dumi''))),
                 (''resolve'',
                    JObj [(''includes'',
                             JArr (map JStr
                               (map (\<lambda>(name, pkgPath).
                                       path_relative d (cwd (api_paths a)) (path_join d pkgPath ''src''))
                                  (getHostPkgAlias d (api_paths a)) @ [''docs'']))),
                          (''previewLangs'', JArr [JStr ''jsx'', JStr ''tsx''])]),
                 (''locales'',
                    JArr [JArr [JStr ''en-US'', JStr ''English''],
                          JArr [JStr ''zh-CN'',
                                JStr [CHR 0xE4, CHR 0xB8, CHR 0xAD, CHR 0xE6, CHR 0x96, CHR 0x87]]]),
                 (''mode'', JStr ''doc'')]"
    unfolding mo v title by (simp add: default_includes_def default_locales_def)
  have 3: "merged_opts [R, D] 1 a = opts_view [R, D] 1"
    unfolding mo v0 ..
  show ?thesis
    unfolding h c using 1 2 3 by blast
qed

theorem defaults_without_user_config_witness:
  "no_user_config plain_api \<and>
   merged_opts (heap (fst (plugin example_deps plain_api None)))
       (dflt_ref (snd (plugin example_deps plain_api None))) plain_api =
     JObj [(''title'', JStr ''dumi''),
           (''resolve'',
              JObj [(''includes'', JArr [JStr ''packages/button/src'', JStr ''docs'']),
                    (''previewLangs'', JArr [JStr ''jsx'', JStr ''tsx''])]),
           (''locales'',
              JArr [JArr [JStr ''en-US'', JStr ''English''],
                    JArr [JStr ''zh-CN'',
                          JStr [CHR 0xE4, CHR 0xB8, CHR 0xAD, CHR 0xE6, CHR 0x96, CHR 0x87]]]),
           (''mode'', JStr ''doc'')]"
proof -
  have none: "no_user_config plain_api"
    by (simp add: no_user_config_def plain_api_def js_get_def config_resolve_key_def)
  from defaults_without_user_config [OF none, of example_deps None] none
  show ?thesis
    by (simp add: example_deps_def plain_api_def example_paths_def)
qed

section \<open>Reading the options through the heap\<close>

lemma snapshot_data:
  "a < length h \<Longrightarrow> list_all (\<lambda>kv. is_data (snd kv)) (h ! a) \<Longrightarrow>
   snapshot (Suc n) h (Ref a) = JObj (data_view (h ! a))"
  by (auto simp: data_view_def list_all_iff is_data_def split: val.splits)

lemma snapshot_two:
  assumes "a < length h" "r < length h"
    and "list_all (\<lambda>kv. is_data (snd kv) \<or> snd kv = Ref r) (h ! a)"
    and "list_all (\<lambda>kv. is_data (snd kv)) (h ! r)"
  shows "snapshot (Suc (Suc n)) h (Ref a) = view_with (JObj (data_view (h ! r))) (h ! a)"
proof -
  have "snapshot (Suc n) h (snd kv) =
          (case snd kv of Data v \<Rightarrow> v | Ref a \<Rightarrow> JObj (data_view (h ! r)))"
    if "kv \<in> set (h ! a)" for kv
  proof (cases "snd kv")
    case (Data v)
    then show ?thesis by simp
  next
    case (Ref b)
    with that assms(3) have "b = r" by (auto simp: list_all_iff is_data_def)
    with Ref snapshot_data [OF assms(2) assms(4), of n] show ?thesis by simp
  qed
  with assms(1) show ?thesis by (simp add: view_with_def)
qed

lemma set_prop_all:
  "list_all (\<lambda>kv. P (snd kv)) ob \<Longrightarrow> P v \<Longrightarrow> list_all (\<lambda>kv. P (snd kv)) (set_prop ob k v)"
  by (induction ob) auto

lemma get_prop_all:
  "list_all (\<lambda>kv. P (snd kv)) ob \<Longrightarrow> P (Data JUndefined) \<Longrightarrow> P (get_prop ob k)"
  by (induction ob) (auto simp: get_prop_def)



lemma merged_result_all:
  assumes "list_all (\<lambda>kv. is_data (snd kv) \<or> snd kv = Ref r) ob"
  shows "list_all (\<lambda>kv. is_data (snd kv) \<or> snd kv = Ref r) (merged_result a ob)"
proof -
  let ?P = "\<lambda>v. is_data v \<or> v = Ref r"
  let ?A = "list_all (\<lambda>kv. ?P (snd kv))"
  have d: "?P (Data v)" for v by (simp add: is_data_def)
  have dk: "?A (result_default_key a ob' k)" if "?A ob'" for ob' k
    unfolding result_default_key_def
    using set_prop_all [of ?P ob', OF that] get_prop_all [of ?P ob', OF that] d by simp
  have ok: "?A (result_optional_key a ob' k)" if "?A ob'" for ob' k
    unfolding result_optional_key_def
    using set_prop_all [of ?P ob', OF that] that d by simp
  have rt: "?A (set_prop ob' ''routes'' (Data v))" if "?A ob'" for ob' v
    using set_prop_all [of ?P ob', OF that] d by simp
  define o1 where "o1 = foldl (result_default_key a) ob [''mode'', ''title'', ''locales'']"
  define o2 where "o2 = foldl (result_optional_key a) o1
      [''description'', ''logo'', ''menus'', ''navs'']"
  have "?A o1" unfolding o1_def foldl.simps by (intro dk assms)
  then have 2: "?A o2" unfolding o2_def foldl.simps by (intro ok)
  have "merged_result a ob =
      (if truthy (userConfig_routes a) then set_prop o2 ''routes'' (Data (userConfig_routes a))
       else o2)"
    by (simp only: merged_result_def Let_def o1_def o2_def)
  with 2 rt [OF 2] show ?thesis by (cases "truthy (userConfig_routes a)") simp_all
qed


lemma set_prop_twice: "set_prop (set_prop ob k v) k v' = set_prop ob k v'"
  by (induction ob) auto

lemma set_prop_again:
  "k \<noteq> k' \<Longrightarrow>
   set_prop (set_prop (set_prop ob k v) k' v') k v = set_prop (set_prop ob k v) k' v'"
  by (induction ob) (auto simp: set_prop_twice)

lemma resolve_obj_idem: "resolve_obj a (resolve_obj a ob) = resolve_obj a ob"
  by (simp add: resolve_obj_def set_prop_twice set_prop_again)

lemma resolve_obj_all:
  "list_all (\<lambda>kv. is_data (snd kv)) ob \<Longrightarrow> list_all (\<lambda>kv. is_data (snd kv)) (resolve_obj a ob)"
  by (simp add: resolve_obj_def set_prop_all is_data_def)

lemma resolve_writes_obj:
  "r < length h \<Longrightarrow> resolve_writes a r h = h[r := resolve_obj a (h ! r)]"
  by (simp add: resolve_writes_def resolve_write_def resolve_obj_def put_def)

text \<open>
  A merge on a baseline that holds data returns; the baseline still holds data afterwards,
  and a second merge of the same configuration reads the same options.
\<close>

lemma flat_merge:
  assumes flat: "defaults_flat h dflt" and run: "mergeUserConfig h dflt a = (h', out)"
  shows "out = Inr (length h)" and "defaults_flat h' dflt"
    and "merged_opts h' dflt a = merged_opts h dflt a"
proof -
  from flat obtain r where r: "get_prop (h ! dflt) ''resolve'' = Ref r"
    by (auto simp: defaults_flat_def split: val.splits)
  with flat have lt: "dflt < length h" and rlt: "r < length h"
    and dist: "distinct (map fst (h ! dflt))"
    and rdata: "list_all (\<lambda>kv. is_data (snd kv)) (h ! r)"
    and ddata: "list_all (\<lambda>kv. is_data (snd kv) \<or> snd kv = Ref r) (h ! dflt)"
    by (simp_all add: defaults_flat_def)
  have ok: "defaults_ok h dflt"
    using lt rlt dist r by (simp add: defaults_ok_def)
  have "is_data (get_prop (h ! r) ''resolve'')"
    using get_prop_all [of is_data "h ! r", OF rdata] by (simp add: is_data_def)
  with r have ne: "r \<noteq> dflt" by (auto simp: is_data_def)
  define W where "W = resolve_writes a r"
  define M where "M = merged_result a (h ! dflt)"
  define R where "R = resolve_obj a (h ! r)"
  have Wh: "W h = h[r := R]"
    unfolding W_def R_def by (rule resolve_writes_obj [OF rlt])
  from mergeUserConfig_eq [OF ok r, of a] run
  have h': "h' = W h @ [M]" and out: "out = Inr (length h)"
    by (simp_all add: W_def M_def)
  show "out = Inr (length h)" by (rule out)
  have len': "length h' = Suc (length h)" by (simp add: h' Wh)
  have at_d: "h' ! dflt = h ! dflt"
    using lt ne by (simp add: h' Wh nth_append)
  have at_r: "h' ! r = R"
    using rlt by (simp add: h' Wh nth_append)
  have Rdata: "list_all (\<lambda>kv. is_data (snd kv)) R"
    unfolding R_def by (rule resolve_obj_all [OF rdata])
  show flat': "defaults_flat h' dflt"
    using lt rlt dist r ddata Rdata by (simp add: defaults_flat_def len' at_d at_r)
  have Mall: "list_all (\<lambda>kv. is_data (snd kv) \<or> snd kv = Ref r) M"
    unfolding M_def by (rule merged_result_all [OF ddata])
  have view: "opts_view (H @ [M]) (length H) = view_with (JObj (data_view R)) M"
    if "r < length H" and "H ! r = R" for H
  proof -
    from that obtain n where n: "length H = Suc n"
      by (cases "length H") auto
    have L: "length (H @ [M]) = Suc (Suc n)" using n by simp
    have cells: "(H @ [M]) ! r = R" "(H @ [M]) ! length H = M"
      using that by (simp_all add: nth_append)
    have "opts_view (H @ [M]) (length H) = snapshot (Suc (Suc n)) (H @ [M]) (Ref (length H))"
      unfolding opts_view_def L ..
    also have "\<dots> = view_with (JObj (data_view ((H @ [M]) ! r))) ((H @ [M]) ! length H)"
      by (rule snapshot_two) (use that Mall Rdata in \<open>simp_all add: nth_append\<close>)
    finally show ?thesis by (simp only: cells)
  qed
  have first: "merged_opts h dflt a = view_with (JObj (data_view R)) M"
    using view [of "W h"] rlt run
    by (simp add: merged_opts_def h' out Wh)
  from flat' have ok': "defaults_ok h' dflt"
    by (auto simp: defaults_flat_def defaults_ok_def split: val.splits)
  have r': "get_prop (h' ! dflt) ''resolve'' = Ref r" by (simp add: at_d r)
  have Ridem: "resolve_obj a R = R"
    unfolding R_def by (rule resolve_obj_idem)
  have Wh': "W h' = h'"
    unfolding W_def using rlt
    by (simp add: resolve_writes_obj len' at_r Ridem list_update_same_conv)
  have "mergeUserConfig h' dflt a = (h' @ [M], Inr (length h'))"
    using mergeUserConfig_eq [OF ok' r', of a] by (simp add: Wh' at_d M_def flip: W_def)
  then have "merged_opts h' dflt a = opts_view (h' @ [M]) (length h')"
    by (simp add: merged_opts_def)
  also have "\<dots> = view_with (JObj (data_view R)) M"
    by (rule view) (use rlt in \<open>simp_all add: len' at_r\<close>)
  finally show "merged_opts h' dflt a = merged_opts h dflt a"
    by (simp add: first)
qed

section \<open>The two passes on a baseline that is in order\<close>

lemma get_prop_resolve_obj:
  "get_prop (resolve_obj a ob) ''resolve'' = get_prop ob ''resolve''"
  by (simp add: resolve_obj_def get_prop_set_prop)

lemma distinct_resolve_obj:
  "distinct (map fst ob) \<Longrightarrow> distinct (map fst (resolve_obj a ob))"
  by (simp add: resolve_obj_def keys_set_prop)

lemma defaults_ok_merge:
  assumes ok: "defaults_ok h dflt" and run: "mergeUserConfig h dflt a = (h', out)"
  shows "defaults_ok h' dflt"
proof -
  from defaults_ok_resolve [OF ok] obtain r
    where r: "get_prop (h ! dflt) ''resolve'' = Ref r" and rlt: "r < length h" by blast
  from ok have lt: "dflt < length h" and dist: "distinct (map fst (h ! dflt))"
    by (simp_all add: defaults_ok_def)
  from mergeUserConfig_eq [OF ok r, of a] run
  have h': "h' = h[r := resolve_obj a (h ! r)] @ [merged_result a (h ! dflt)]"
    by (simp add: resolve_writes_obj [OF rlt])
  have cell: "h' ! dflt = (if dflt = r then resolve_obj a (h ! dflt) else h ! dflt)"
    using lt rlt by (simp add: h' nth_append nth_list_update)
  have len: "length h' = Suc (length h)" by (simp add: h')
  show ?thesis
    using lt rlt dist r
    by (auto simp: defaults_ok_def cell len get_prop_resolve_obj distinct_resolve_obj)
qed

lemma onPatchRoutesBefore_run:
  assumes ok: "defaults_ok (heap s) (dflt_ref c)"
  shows "onPatchRoutesBefore d a c s rs None =
           (setContext a (length (heap s))
              (s\<lparr>heap := fst (mergeUserConfig (heap s) (dflt_ref c) a)\<rparr>),
            Inr (getDemoRoutes d (api_paths a) @
                 getRouteConfig d a (merged_opts (heap s) (dflt_ref c) a)))"
proof -
  from mergeUserConfig_returns [OF ok, of a]
  obtain h' where m: "mergeUserConfig (heap s) (dflt_ref c) a = (h', Inr (length (heap s)))"
    by blast
  show ?thesis
    by (simp add: onPatchRoutesBefore_def m merged_opts_def Let_def
        array_splice_def array_unshift_def array_push_def)
qed

lemma modifyRoutes_run:
  assumes ok: "defaults_ok (heap s) (dflt_ref c)"
  shows "modifyRoutes d a c s rs =
           (s\<lparr>heap := fst (mergeUserConfig (heap s) (dflt_ref c) a)\<rparr>,
            modified_routes d a c (merged_opts (heap s) (dflt_ref c) a) rs)"
proof -
  from mergeUserConfig_returns [OF ok, of a]
  obtain h' where m: "mergeUserConfig (heap s) (dflt_ref c) a = (h', Inr (length (heap s)))"
    by blast
  show ?thesis
    by (simp add: modifyRoutes_def m merged_opts_def modified_routes_def Let_def
        split: option.splits)
qed

lemma defaults_flat_ok: "defaults_flat h dflt \<Longrightarrow> defaults_ok h dflt"
  by (auto simp: defaults_flat_def defaults_ok_def split: val.splits)

text \<open>
  One run on a baseline that holds data: its result is a function of the options merged
  at its start, and it leaves a baseline from which the same options are merged.
\<close>

lemma generate_run:
  assumes flat: "defaults_flat (heap s) (dflt_ref c)"
    and run: "generate d a c host rs s = (s', out)"
  shows "out = modified_routes d a c (merged_opts (heap s) (dflt_ref c) a)
                 (host (getDemoRoutes d (api_paths a) @
                        getRouteConfig d a (merged_opts (heap s) (dflt_ref c) a)))"
    and "defaults_flat (heap s') (dflt_ref c)"
    and "merged_opts (heap s') (dflt_ref c) a = merged_opts (heap s) (dflt_ref c) a"
proof -
  define h1 where "h1 = fst (mergeUserConfig (heap s) (dflt_ref c) a)"
  define s1 where "s1 = setContext a (length (heap s)) (s\<lparr>heap := h1\<rparr>)"
  define h2 where "h2 = fst (mergeUserConfig h1 (dflt_ref c) a)"
  have m1: "mergeUserConfig (heap s) (dflt_ref c) a = (h1, snd (mergeUserConfig (heap s) (dflt_ref c) a))"
    by (simp add: h1_def)
  have flat1: "defaults_flat h1 (dflt_ref c)"
    and v1: "merged_opts h1 (dflt_ref c) a = merged_opts (heap s) (dflt_ref c) a"
    using flat_merge [OF flat m1] by simp_all
  have m2: "mergeUserConfig h1 (dflt_ref c) a = (h2, snd (mergeUserConfig h1 (dflt_ref c) a))"
    by (simp add: h2_def)
  have flat2: "defaults_flat h2 (dflt_ref c)"
    and v2: "merged_opts h2 (dflt_ref c) a = merged_opts h1 (dflt_ref c) a"
    using flat_merge [OF flat1 m2] by simp_all
  have hs1: "heap s1 = h1" by (simp add: s1_def setContext_def)
  have p1: "onPatchRoutesBefore d a c s rs None =
      (s1, Inr (getDemoRoutes d (api_paths a) @
                getRouteConfig d a (merged_opts (heap s) (dflt_ref c) a)))"
    using onPatchRoutesBefore_run [OF defaults_flat_ok [OF flat], of d a rs]
    by (simp add: s1_def h1_def)
  have ok1: "defaults_ok (heap s1) (dflt_ref c)"
    using defaults_flat_ok [OF flat1] by (simp add: hs1)
  have p2: "modifyRoutes d a c s1 rs' =
      (s1\<lparr>heap := h2\<rparr>, modified_routes d a c (merged_opts (heap s) (dflt_ref c) a) rs')" for rs'
    using modifyRoutes_run [OF ok1, of d a rs'] by (simp add: hs1 h2_def v1)
  from run have s': "s' = s1\<lparr>heap := h2\<rparr>"
    and out: "out = modified_routes d a c (merged_opts (heap s) (dflt_ref c) a)
                 (host (getDemoRoutes d (api_paths a) @
                        getRouteConfig d a (merged_opts (heap s) (dflt_ref c) a)))"
    by (simp_all add: generate_def p1 p2)
  show "out = modified_routes d a c (merged_opts (heap s) (dflt_ref c) a)
                 (host (getDemoRoutes d (api_paths a) @
                        getRouteConfig d a (merged_opts (heap s) (dflt_ref c) a)))"
    by (rule out)
  show "defaults_flat (heap s') (dflt_ref c)" using flat2 by (simp add: s')
  show "merged_opts (heap s') (dflt_ref c) a = merged_opts (heap s) (dflt_ref c) a"
    using v1 v2 by (simp add: s')
qed

lemma example_defaults_flat: "defaults_flat example_heap (dflt_ref example_closure)"
  by code_simp

lemma example_pass1:
  "onPatchRoutesBefore example_deps example_api example_closure example_state [] None =
     (example_state1, Inr example_routes1)"
  by code_simp

lemma example_final_root_found:
  "find is_root (example_host example_routes1) = Some example_final_root"
  by code_simp

section \<open>The baseline after a merge\<close>

text \<open>
  What a merge leaves alone: the baseline object itself and every other object but the
  one \<open>defaultOpts.resolve\<close> refers to, which takes the configured \<open>resolve\<close> values.
\<close>

lemma mergeUserConfig_frame:
  assumes flat: "defaults_flat h dflt" and r: "get_prop (h ! dflt) ''resolve'' = Ref r"
    and run: "mergeUserConfig h dflt a = (h', out)"
  shows "h' ! dflt = h ! dflt"
    and "h' ! r = resolve_obj a (h ! r)"
    and "b < length h \<Longrightarrow> b \<noteq> r \<Longrightarrow> h' ! b = h ! b"
proof -
  from flat r have lt: "dflt < length h" and rlt: "r < length h"
    and rdata: "list_all (\<lambda>kv. is_data (snd kv)) (h ! r)"
    by (simp_all add: defaults_flat_def)
  have "is_data (get_prop (h ! r) ''resolve'')"
    using get_prop_all [of is_data "h ! r", OF rdata] by (simp add: is_data_def)
  with r have ne: "r \<noteq> dflt" by (auto simp: is_data_def)
  from mergeUserConfig_eq [OF defaults_flat_ok [OF flat] r, of a] run
  have h': "h' = h[r := resolve_obj a (h ! r)] @ [merged_result a (h ! dflt)]"
    by (simp add: resolve_writes_obj [OF rlt])
  show "h' ! dflt = h ! dflt" using lt ne by (simp add: h' nth_append)
  show "h' ! r = resolve_obj a (h ! r)" using rlt by (simp add: h' nth_append)
  show "b < length h \<Longrightarrow> b \<noteq> r \<Longrightarrow> h' ! b = h ! b" by (simp add: h' nth_append)
qed

text \<open>
  C2. \<open>Object.assign\<close> copies the reference to \<open>defaultOpts.resolve\<close>, so the write through
  \<open>result.resolve\<close> lands in the baseline. In the example the plugin's \<open>defaultOpts\<close> is
  the object at address 1 and its \<open>resolve\<close> the object at address 0. After one merge
  with a configuration that sets \<open>resolve.includes\<close>, the baseline's \<open>resolve.includes\<close>
  is the user's list, and a later merge with nothing configured still returns it.
\<close>

theorem mergeUserConfig_overwrites_baseline:
  "dflt_ref example_closure = 1 \<and>
   get example_heap 1 ''resolve'' = Ref 0 \<and>
   get example_heap 0 ''includes'' = Data (JArr [JStr ''packages/button/src'', JStr ''docs'']) \<and>
   mergeUserConfig example_heap 1 example_api = (example_merged_heap, Inr 2) \<and>
   get example_merged_heap 1 ''resolve'' = Ref 0 \<and>
   get example_merged_heap 0 ''includes'' = Data (JArr [JStr ''src'']) \<and>
   opts_view example_merged_heap 1 \<noteq> opts_view example_heap 1 \<and>
   no_user_config plain_api \<and>
   js_member (js_member (merged_opts example_merged_heap 1 plain_api) ''resolve'') ''includes''
     = JArr [JStr ''src'']"
proof -
  have 1: "get example_heap 1 ''resolve'' = Ref 0"
    "get example_heap 0 ''includes'' = Data (JArr [JStr ''packages/button/src'', JStr ''docs''])"
    unfolding example_heap_eq by code_simp+
  have 2: "get example_merged_heap 1 ''resolve'' = Ref 0"
    "get example_merged_heap 0 ''includes'' = Data (JArr [JStr ''src''])"
    unfolding example_merged_heap_def by code_simp+
  have 3: "opts_view example_merged_heap 1 \<noteq> opts_view example_heap 1"
    unfolding example_heap_eq example_merged_heap_def by code_simp
  have 4: "no_user_config plain_api"
    by (simp add: no_user_config_def plain_api_def js_get_def config_resolve_key_def)
  have 5: "js_member (js_member (merged_opts example_merged_heap 1 plain_api) ''resolve'') ''includes''
     = JArr [JStr ''src'']"
    unfolding example_merged_heap_def plain_api_def by code_simp
  from example_dflt_ref 1 example_merge 2 3 4 5 show ?thesis by blast
qed

section \<open>The metadata of the root route\<close>

text \<open>
  C5. When the route list has a route with path \<open>/\<close>, the second pass returns the list
  with that route's component rewritten around the serialized metadata object. The object
  has exactly the keys \<open>menus\<close>, \<open>locales\<close>, \<open>navs\<close>, \<open>title\<close>, \<open>logo\<close>, \<open>desc\<close>, \<open>mode\<close> and
  \<open>repoUrl\<close>, in this order: the first three computed from the root route's child routes
  and the merged options, the next four read from the merged options (\<open>desc\<close> from
  \<open>description\<close>), the last computed from the \<open>repository\<close> field of package.json.
\<close>

theorem modifyRoutes_meta:
  assumes ok: "defaults_ok (heap s) (dflt_ref c)" and root: "find is_root rs = Some root"
  shows "let opts = merged_opts (heap s) (dflt_ref c) a;
             m = meta d a (pkg c) opts (routes root)
         in snd (modifyRoutes d a c s rs) =
              Inr (update_first is_root
                     (set_component (root_component (component root) (serialize m))) rs) \<and>
            map fst m =
              [''menus'', ''locales'', ''navs'', ''title'', ''logo'', ''desc'', ''mode'', ''repoUrl''] \<and>
            js_get m ''menus'' = getMenuFromRoutes d (routes root) opts (api_paths a) \<and>
            js_get m ''locales'' = getLocaleFromRoutes d (routes root) opts \<and>
            js_get m ''navs'' = getNavFromRoutes d (routes root) opts (js_member opts ''navs'') \<and>
            js_get m ''title'' = js_member opts ''title'' \<and>
            js_get m ''logo'' = js_member opts ''logo'' \<and>
            js_get m ''desc'' = js_member opts ''description'' \<and>
            js_get m ''mode'' = js_member opts ''mode'' \<and>
            js_get m ''repoUrl'' =
              getRepoUrl d (js_or (repository_url (js_get (pkg c) ''repository''))
                                  (js_get (pkg c) ''repository''))"
  using root
  by (simp add: Let_def modifyRoutes_run [OF ok] modified_routes_def meta_def js_get_def)

theorem modifyRoutes_meta_witness:
  "defaults_ok example_heap (dflt_ref example_closure) \<and>
   find is_root example_routes1 =
     Some (Route (Some ''/'') (Some ''layout'')
             (Some [Route (Some ''/guide'') (Some ''guide.md'') None []]) []) \<and>
   map fst (meta example_deps example_api (pkg example_closure)
              (merged_opts example_heap (dflt_ref example_closure) example_api)
              (Some [Route (Some ''/guide'') (Some ''guide.md'') None []])) =
     [''menus'', ''locales'', ''navs'', ''title'', ''logo'', ''desc'', ''mode'', ''repoUrl''] \<and>
   js_get (meta example_deps example_api (pkg example_closure)
              (merged_opts example_heap (dflt_ref example_closure) example_api)
              (Some [Route (Some ''/guide'') (Some ''guide.md'') None []])) ''title''
     = JStr ''Site''"
proof -
  have root: "find is_root example_routes1 =
     Some (Route (Some ''/'') (Some ''layout'')
             (Some [Route (Some ''/guide'') (Some ''guide.md'') None []]) [])"
    by code_simp
  have title: "js_member (merged_opts example_heap (dflt_ref example_closure) example_api) ''title''
      = JStr ''Site''"
    by code_simp
  from modifyRoutes_meta [OF _ root, of example_state example_closure example_api example_deps]
    example_defaults_ok root title
  show ?thesis by (simp add: Let_def example_state_def)
qed

text \<open>
  C7. In a run of the two passes the navigation metadata is computed by the second pass,
  from the child routes of the root route of the list that pass is given: the list after
  the host's changes to what the first pass produced.
\<close>

theorem metadata_from_final_routes:
  assumes ok: "defaults_ok (heap s) (dflt_ref c)"
    and pass1: "onPatchRoutesBefore d a c s rs None = (s1, Inr rs1)"
    and root: "find is_root (host rs1) = Some root"
  shows "let opts = merged_opts (heap s1) (dflt_ref c) a;
             m = meta d a (pkg c) opts (routes root)
         in snd (generate d a c host rs s) =
              Inr (update_first is_root
                     (set_component (root_component (component root) (serialize m)))
                     (host rs1)) \<and>
            js_get m ''menus'' = getMenuFromRoutes d (routes root) opts (api_paths a) \<and>
            js_get m ''locales'' = getLocaleFromRoutes d (routes root) opts \<and>
            js_get m ''navs'' = getNavFromRoutes d (routes root) opts (js_member opts ''navs'')"
proof -
  obtain h1 out where m: "mergeUserConfig (heap s) (dflt_ref c) a = (h1, out)"
    by (cases "mergeUserConfig (heap s) (dflt_ref c) a")
  from pass1 have s1: "heap s1 = h1"
    by (auto simp: onPatchRoutesBefore_run [OF ok] m setContext_def)
  have ok1: "defaults_ok (heap s1) (dflt_ref c)"
    unfolding s1 by (rule defaults_ok_merge [OF ok m])
  show ?thesis
    using root
    by (simp add: Let_def generate_def pass1 modifyRoutes_run [OF ok1] modified_routes_def
        meta_def js_get_def)
qed

theorem metadata_from_final_routes_witness:
  "defaults_ok (heap example_state) (dflt_ref example_closure) \<and>
   onPatchRoutesBefore example_deps example_api example_closure example_state [] None =
     (example_state1, Inr example_routes1) \<and>
   find is_root (example_host example_routes1) = Some example_final_root \<and>
   js_get (meta example_deps example_api (pkg example_closure)
             (merged_opts (heap example_state1) (dflt_ref example_closure) example_api)
             (routes example_final_root)) ''menus''
     = JArr [JStr ''/guide'', JStr ''/extra'']"
proof -
  have ok: "defaults_ok (heap example_state) (dflt_ref example_closure)"
    using example_defaults_ok by (simp add: example_state_def)
  have menus: "getMenuFromRoutes example_deps (routes example_final_root)
       (merged_opts (heap example_state1) (dflt_ref example_closure) example_api)
       (api_paths example_api) = JArr [JStr ''/guide'', JStr ''/extra'']"
    by code_simp
  from metadata_from_final_routes [where host = example_host, OF ok example_pass1
      example_final_root_found]
    ok example_pass1 example_final_root_found menus
  show ?thesis by (simp add: Let_def)
qed

section \<open>Running the generation again\<close>

text \<open>
  C3. Two runs of the two passes, one after the other, on the same configuration,
  package.json, host packages, incoming route list and host changes return the same
  result: the same route list, with the same text in the root route's component, or the
  same error. The second run starts from the state the first one left, in which
  \<open>defaultOpts.resolve\<close> may have been overwritten.
\<close>

theorem generate_deterministic:
  assumes flat: "defaults_flat (heap s) (dflt_ref c)"
    and run1: "generate d a c host rs s = (s1, out1)"
    and run2: "generate d a c host rs s1 = (s2, out2)"
  shows "out2 = out1"
  using generate_run [OF flat run1] generate_run(1) [OF _ run2] by simp

theorem generate_deterministic_witness:
  "defaults_flat (heap example_state) (dflt_ref example_closure) \<and>
   snd (generate example_deps example_api example_closure example_host [] example_state)
     \<noteq> Inl TypeError \<and>
   snd (generate example_deps example_api example_closure example_host []
          (fst (generate example_deps example_api example_closure example_host [] example_state)))
     = snd (generate example_deps example_api example_closure example_host [] example_state)"
proof -
  have flat: "defaults_flat (heap example_state) (dflt_ref example_closure)"
    using example_defaults_flat by (simp add: example_state_def)
  have ok: "snd (generate example_deps example_api example_closure example_host [] example_state)
     \<noteq> Inl TypeError"
    by code_simp
  from generate_deterministic [OF flat, of example_deps example_api example_host "[]"
      "fst (generate example_deps example_api example_closure example_host [] example_state)"
      "snd (generate example_deps example_api example_closure example_host [] example_state)" 
      "fst (generate example_deps example_api example_closure example_host []
          (fst (generate example_deps example_api example_closure example_host [] example_state)))"
      "snd (generate example_deps example_api example_closure example_host []
          (fst (generate example_deps example_api example_closure example_host [] example_state)))"]
    flat ok
  show ?thesis by simp
qed

section \<open>The serialized metadata and its consumer\<close>

lemma js_get_js_set: "js_get (js_set ob k v) k' = (if k' = k then v else js_get ob k')"
  by (induction ob) (auto simp: js_get_def)

lemma keys_js_set:
  "map fst (js_set ob k v) = (if k \<in> fst ` set ob then map fst ob else map fst ob @ [k])"
  by (induction ob) (force simp: image_iff)+

lemma js_set_fresh: "k \<notin> fst ` set ob \<Longrightarrow> js_set ob k v = ob @ [(k, v)]"
  by (induction ob) auto

lemma spread_Cons: "spread ob (kv # src) = spread (js_set ob (fst kv) (snd kv)) src"
  by (simp add: spread_def)

lemma distinct_spread: "distinct (map fst ob) \<Longrightarrow> distinct (map fst (spread ob src))"
proof (induction src arbitrary: ob)
  case Nil
  then show ?case by (simp add: spread_def)
next
  case (Cons kv src)
  from Cons.prems have "distinct (map fst (js_set ob (fst kv) (snd kv)))"
    by (simp add: keys_js_set)
  from Cons.IH [OF this] show ?case by (simp add: spread_Cons)
qed

lemma keys_spread: "fst ` set (spread ob src) = fst ` set ob \<union> fst ` set src"
proof (induction src arbitrary: ob)
  case Nil
  then show ?case by (simp add: spread_def)
next
  case (Cons kv src)
  have "fst ` set (js_set ob (fst kv) (snd kv)) = insert (fst kv) (fst ` set ob)"
    using keys_js_set [of ob "fst kv" "snd kv"]
    by (metis (no_types, lifting) insert_absorb list.set_map set_append list.simps(15)
        Un_insert_right sup_bot.right_neutral empty_set)
  with Cons.IH [of "js_set ob (fst kv) (snd kv)"] show ?case
    by (auto simp: spread_Cons)
qed

lemma js_get_spread:
  "distinct (map fst src) \<Longrightarrow>
   js_get (spread ob src) k = (if k \<in> fst ` set src then js_get src k else js_get ob k)"
proof (induction src arbitrary: ob)
  case Nil
  then show ?case by (simp add: spread_def)
next
  case (Cons kv src)
  obtain k' v' where kv: "kv = (k', v')" by (cases kv)
  from Cons.prems kv have fresh: "k' \<notin> fst ` set src" and d: "distinct (map fst src)"
    by auto
  have tail: "k \<in> fst ` set src \<Longrightarrow> k \<noteq> k'" using fresh by auto
  have head: "js_get ((k', v') # src) k = (if k = k' then v' else js_get src k)"
    by (simp add: js_get_def)
  show ?case
    using Cons.IH [OF d, of "js_set ob k' v'"] tail
    by (auto simp: spread_Cons kv js_get_js_set head)
qed

lemma spread_empty: "distinct (map fst m) \<Longrightarrow> spread [] m = m"
proof -
  have "distinct (map fst (t @ m)) \<Longrightarrow> spread t m = t @ m" for t
  proof (induction m arbitrary: t)
    case Nil
    then show ?case by (simp add: spread_def)
  next
    case (Cons kv m)
    from Cons.prems have fresh: "fst kv \<notin> fst ` set t" by auto
    from Cons.prems have "distinct (map fst ((t @ [kv]) @ m))" by auto
    from Cons.IH [OF this] fresh show ?case by (simp add: spread_Cons js_set_fresh)
  qed
  from this [of "[]"] show "distinct (map fst m) \<Longrightarrow> spread [] m = m" by simp
qed

lemma distinct_object_of: "distinct (map fst (object_of ms))"
  using distinct_spread [of "[]" ms] by (simp add: object_of_def spread_def)

text \<open>An object that \<open>JSON.parse\<close> returns has no key twice.\<close>

lemma parse_literal_object: "parse_literal w v s = Inr (JObj m, r) \<Longrightarrow> v = JObj m"
  by (auto simp: parse_literal_def split: if_splits)

lemma parse_number_object: "parse_number s \<noteq> Inr (JObj m, r)"
  by (auto simp: parse_number_def split: list.splits sum.splits)

lemma parse_value_object:
  assumes "parse_value n s = Inr (JObj m, r)"
  shows "distinct (map fst m)"
proof (cases n)
  case 0
  with assms show ?thesis by simp
next
  case (Suc k)
  show ?thesis
  proof (cases "skip_ws s")
    case Nil
    with assms Suc show ?thesis by simp
  next
    case (Cons c cs)
    consider (str) "c = CHR 0x22" | (arr) "c \<noteq> CHR 0x22" "c = CHR ''[''"
      | (obj) "c \<noteq> CHR 0x22" "c \<noteq> CHR ''[''" "c = CHR ''{''"
      | (other) "c \<noteq> CHR 0x22" "c \<noteq> CHR ''[''" "c \<noteq> CHR ''{''"
      by blast
    then show ?thesis
    proof cases
      case str
      with assms Suc Cons show ?thesis by (auto split: sum.splits)
    next
      case arr
      with assms Suc Cons show ?thesis by (auto split: sum.splits list.splits if_splits)
    next
      case obj
      with assms Suc Cons show ?thesis
        by (auto split: sum.splits list.splits if_splits simp: distinct_object_of)
    next
      case other
      with assms Suc Cons show ?thesis
        by (auto split: if_splits dest: parse_literal_object simp: parse_number_object)
    qed
  qed
qed

lemma JSON_parse_object:
  assumes "JSON_parse s = Inr (JObj m)"
  shows "distinct (map fst m)"
proof -
  from assms obtain r where "parse_value (Suc (2 * length s)) s = Inr (JObj m, r)"
    by (auto simp: JSON_parse_def simp del: parse_value.simps split: sum.splits if_splits)
  then show ?thesis by (rule parse_value_object)
qed

section \<open>JSON.parse reads back what JSON.stringify wrote\<close>

lemma digit_chars_checked:
  "list_all (\<lambda>n. hex_value (digit_char n) = Some n \<and> digit_char n \<noteq> CHR ''^'') [0..<16]"
  "list_all (\<lambda>n. digit_value (digit_char n) = n \<and> is_digit (digit_char n) \<and>
                 (digit_char n = CHR ''0'' \<longleftrightarrow> n = 0)) [0..<10]"
  by code_simp+

lemma hex_digit_char: "n < 16 \<Longrightarrow> hex_value (digit_char n) = Some n"
  using digit_chars_checked(1) by (simp add: list_all_iff)

lemma digit_value_digit_char: "n < 10 \<Longrightarrow> digit_value (digit_char n) = n"
  using digit_chars_checked(2) by (simp add: list_all_iff)

lemma is_digit_digit_char: "n < 10 \<Longrightarrow> is_digit (digit_char n)"
  using digit_chars_checked(2) by (simp add: list_all_iff)

lemma digit_char_zero: "n < 10 \<Longrightarrow> digit_char n = CHR ''0'' \<longleftrightarrow> n = 0"
  using digit_chars_checked(2) by (simp add: list_all_iff)

lemma digit_char_not_caret: "digit_char n \<noteq> CHR ''^''" "CHR ''^'' \<noteq> digit_char n"
proof -
  have "digit_char n = digit_char (n mod 16)" by (simp add: digit_char_def)
  moreover have "digit_char (n mod 16) \<noteq> CHR ''^''"
    using digit_chars_checked(1) by (simp add: list_all_iff)
  ultimately show "digit_char n \<noteq> CHR ''^''" by simp
  then show "CHR ''^'' \<noteq> digit_char n" by (rule not_sym)
qed

lemma parse_chars_quote: "parse_chars (CHR 0x22 # cs) = Inr ([], cs)"
  by simp

lemma parse_chars_plain:
  "c \<noteq> CHR 0x22 \<Longrightarrow> c \<noteq> CHR 0x5C \<Longrightarrow> \<not> (of_char c :: nat) < 32 \<Longrightarrow>
   parse_chars (c # cs) =
     (case parse_chars cs of Inl err \<Rightarrow> Inl err | Inr (s, r) \<Rightarrow> Inr (c # s, r))"
  by simp

lemma parse_chars_escape:
  "unescape e = Some u \<Longrightarrow> e \<noteq> CHR ''u'' \<Longrightarrow>
   parse_chars (CHR 0x5C # e # cs) =
     (case parse_chars cs of Inl err \<Rightarrow> Inl err | Inr (s, r) \<Rightarrow> Inr (u # s, r))"
  by simp

lemma parse_chars_unicode:
  "unicode_escape a b c d = Inr u \<Longrightarrow>
   parse_chars (CHR 0x5C # CHR ''u'' # a # b # c # d # cs) =
     (case parse_chars cs of Inl err \<Rightarrow> Inl err | Inr (s, r) \<Rightarrow> Inr (u # s, r))"
  by simp

lemma unicode_escape_control:
  assumes "(of_char c :: nat) < 32"
  shows "unicode_escape (CHR ''0'') (CHR ''0'') (digit_char (of_char c div 16))
           (digit_char (of_char c mod 16)) = Inr c"
proof -
  have z: "hex_value (CHR ''0'') = Some 0" by (simp add: hex_value_def is_digit_def)
  have y: "hex_value (digit_char (of_char c div 16)) = Some (of_char c div 16)"
    by (rule hex_digit_char) (use assms in simp)
  have x: "hex_value (digit_char (of_char c mod 16)) = Some (of_char c mod 16)"
    by (rule hex_digit_char) simp
  have small: "(of_char c :: nat) div 16 < 8" using assms by simp
  have same: "char_of (16 * ((of_char c :: nat) div 16) + of_char c mod 16) = c"
    by simp
  show ?thesis by (simp add: unicode_escape_def z y x small same)
qed

text \<open>Reading one escaped character back.\<close>

lemma parse_chars_escape_char:
  "parse_chars (escape_char c @ cs) =
     (case parse_chars cs of Inl err \<Rightarrow> Inl err | Inr (s, r) \<Rightarrow> Inr (c # s, r))"
proof -
  consider (quote) "c = CHR 0x22" | (backslash) "c = CHR 0x5C" | (b) "c = CHR 0x08"
    | (f) "c = CHR 0x0C" | (n) "c = CHR 0x0A" | (r) "c = CHR 0x0D" | (t) "c = CHR 0x09"
    | (control) "c \<noteq> CHR 0x22" "c \<noteq> CHR 0x5C" "c \<noteq> CHR 0x08" "c \<noteq> CHR 0x0C"
        "c \<noteq> CHR 0x0A" "c \<noteq> CHR 0x0D" "c \<noteq> CHR 0x09" "(of_char c :: nat) < 32"
    | (plain) "c \<noteq> CHR 0x22" "c \<noteq> CHR 0x5C" "\<not> (of_char c :: nat) < 32"
    by (cases "(of_char c :: nat) < 32") auto
  then show ?thesis
  proof cases
    case quote
    show ?thesis
      unfolding quote
      by (simp add: escape_char_def parse_chars_escape unescape_def del: parse_chars.simps)
  next
    case backslash
    show ?thesis
      unfolding backslash
      by (simp add: escape_char_def parse_chars_escape unescape_def del: parse_chars.simps)
  next
    case b
    show ?thesis
      unfolding b
      by (simp add: escape_char_def parse_chars_escape unescape_def del: parse_chars.simps)
  next
    case f
    show ?thesis
      unfolding f
      by (simp add: escape_char_def parse_chars_escape unescape_def del: parse_chars.simps)
  next
    case n
    show ?thesis
      unfolding n
      by (simp add: escape_char_def parse_chars_escape unescape_def del: parse_chars.simps)
  next
    case r
    show ?thesis
      unfolding r
      by (simp add: escape_char_def parse_chars_escape unescape_def del: parse_chars.simps)
  next
    case t
    show ?thesis
      unfolding t
      by (simp add: escape_char_def parse_chars_escape unescape_def del: parse_chars.simps)
  next
    case control
    then show ?thesis
      by (simp add: escape_char_def parse_chars_unicode [OF unicode_escape_control]
          del: parse_chars.simps)
  next
    case plain
    then have "escape_char c = [c]"
      by (auto simp: escape_char_def)
    with plain show ?thesis
      by (simp add: parse_chars_plain del: parse_chars.simps)
  qed
qed

lemma parse_chars_escaped:
  "parse_chars (concat (map escape_char s) @ CHR 0x22 # rest) = Inr (s, rest)"
  by (induction s) (simp_all add: parse_chars_escape_char del: parse_chars.simps, simp)

lemma parse_chars_quoted:
  "QuoteJSONString s @ rest = CHR 0x22 # concat (map escape_char s) @ CHR 0x22 # rest"
  by (simp add: QuoteJSONString_def)


lemma digits_zero: "digits 0 = ''0''"
  by (simp add: digits.simps digit_char_def)

lemma digits_small: "n < 10 \<Longrightarrow> digits n = [digit_char n]"
  by (simp add: digits.simps)

lemma digits_step:
  "10 \<le> n \<Longrightarrow> digits n = digits (n div 10) @ [digit_char (n mod 10)]"
  by (subst digits.simps) simp

lemma digits_nonempty: "digits n \<noteq> []"
  by (cases "n < 10") (simp_all add: digits_small digits_step)

lemma digits_all: "c \<in> set (digits n) \<Longrightarrow> is_digit c"
proof (induction n arbitrary: c rule: digits.induct)
  case (1 n)
  show ?case
  proof (cases "n < 10")
    case True
    with "1.prems" show ?thesis by (simp add: digits_small is_digit_digit_char)
  next
    case False
    with "1.prems" "1.IH" show ?thesis
      by (auto simp: digits_step is_digit_digit_char)
  qed
qed

lemma digits_hd: "0 < n \<Longrightarrow> hd (digits n) \<noteq> CHR ''0''"
proof (induction n rule: digits.induct)
  case (1 n)
  show ?case
  proof (cases "n < 10")
    case True
    with "1.prems" show ?thesis by (simp add: digits_small digit_char_zero)
  next
    case False
    then have "0 < n div 10" by simp
    with False "1.IH" show ?thesis
      by (simp add: digits_step digits_nonempty)
  qed
qed

lemma digits_value_snoc: "digits_value (ds @ [d]) = 10 * digits_value ds + digit_value d"
  by (simp add: digits_value_def)

lemma digits_value_digits: "digits_value (digits n) = n"
proof (induction n rule: digits.induct)
  case (1 n)
  show ?case
  proof (cases "n < 10")
    case True
    then show ?thesis
      by (simp add: digits_small digits_value_def digit_value_digit_char)
  next
    case False
    with "1.IH" show ?thesis
      by (simp add: digits_step digits_value_snoc digit_value_digit_char)
  qed
qed

lemma value_end_not_digit: "value_end (c # cs) \<Longrightarrow> \<not> is_digit c"
  by (auto simp: value_end_def is_digit_def)

lemma value_end_not_fraction:
  "value_end (c # cs) \<Longrightarrow> c \<noteq> CHR ''.'' \<and> c \<noteq> CHR ''e'' \<and> c \<noteq> CHR ''E''"
  by (auto simp: value_end_def)

lemma takeWhile_digits:
  assumes "\<forall>c\<in>set ds. is_digit c" and "value_end rest"
  shows "takeWhile is_digit (ds @ rest) = ds" and "dropWhile is_digit (ds @ rest) = rest"
proof -
  have r: "takeWhile is_digit rest = []" "dropWhile is_digit rest = rest"
    using assms(2) by (cases rest; simp add: value_end_not_digit)+
  from assms(1) show "takeWhile is_digit (ds @ rest) = ds"
    by (simp add: takeWhile_append2 r)
  from assms(1) show "dropWhile is_digit (ds @ rest) = rest"
    by (simp add: dropWhile_append2 r)
qed

lemma number_tail: "value_end rest \<Longrightarrow> \<not> starts_fraction rest"
  by (cases rest) (auto simp: starts_fraction_def dest: value_end_not_fraction)

lemma parse_nat_digits:
  assumes "value_end rest"
  shows "parse_nat (digits n @ rest) = Inr (n, rest)"
proof (cases "n = 0")
  case True
  have "is_digit (CHR ''0'')" by (simp add: is_digit_def)
  then have "parse_nat (CHR ''0'' # rest) = Inr (0, rest)"
    by (simp add: parse_nat_def digits_value_def digit_value_def number_tail [OF assms])
  with True show ?thesis by (simp add: digits_zero)
next
  case False
  obtain c cs where d: "digits n = c # cs"
    using digits_nonempty [of n] by (cases "digits n") auto
  from False digits_hd [of n] d have c0: "c \<noteq> CHR ''0''" by simp
  from digits_all [of _ n] d have dc: "is_digit c" and all: "\<forall>x\<in>set cs. is_digit x"
    by auto
  from takeWhile_digits [OF all assms]
  have t: "takeWhile is_digit (cs @ rest) = cs" and dr: "dropWhile is_digit (cs @ rest) = rest"
    by simp_all
  have v: "digits_value (c # cs) = n"
    using digits_value_digits [of n] d by simp
  show ?thesis
    by (simp add: d parse_nat_def c0 dc t dr v Let_def number_tail [OF assms])
qed

lemma parse_number_text:
  assumes "value_end rest"
  shows "parse_number (number_text i @ rest) = Inr (JNum i, rest)"
proof (cases "i < 0")
  case True
  then show ?thesis
    by (simp add: number_text_def parse_number_def parse_nat_digits [OF assms])
next
  case False
  obtain c cs where d: "digits (nat i) = c # cs"
    using digits_nonempty [of "nat i"] by (cases "digits (nat i)") auto
  from digits_all [of c "nat i"] d have "is_digit c" by simp
  then have minus: "c \<noteq> CHR ''-''" by (auto simp: is_digit_def)
  have "parse_nat (c # cs @ rest) = Inr (nat i, rest)"
    using parse_nat_digits [OF assms, of "nat i"] d by simp
  with False minus show ?thesis
    by (simp add: number_text_def parse_number_def d)
qed


subsection \<open>Values\<close>

lemma skip_ws_Cons: "\<not> is_ws c \<Longrightarrow> skip_ws (c # cs) = c # cs"
  by (simp add: skip_ws_def)

lemma pv_string:
  "parse_value (Suc n) (CHR 0x22 # cs) =
     (case parse_chars cs of Inl e \<Rightarrow> Inl e | Inr (str, r) \<Rightarrow> Inr (JStr str, r))"
  by (simp add: skip_ws_def is_ws_def)

lemma pv_array_empty: "parse_value (Suc n) (CHR ''['' # CHR '']'' # r) = Inr (JArr [], r)"
  by (simp add: skip_ws_def is_ws_def)

lemma pv_array:
  "\<not> is_ws x \<Longrightarrow> x \<noteq> CHR '']'' \<Longrightarrow>
   parse_value (Suc n) (CHR ''['' # x # cs) =
     (case parse_elements n (x # cs) of Inl e \<Rightarrow> Inl e | Inr (vs, r') \<Rightarrow> Inr (JArr vs, r'))"
  by (simp add: skip_ws_def is_ws_def del: parse_elements.simps)

lemma pv_object_empty: "parse_value (Suc n) (CHR ''{'' # CHR ''}'' # r) = Inr (JObj [], r)"
  by (simp add: skip_ws_def is_ws_def)

lemma pv_object:
  "\<not> is_ws x \<Longrightarrow> x \<noteq> CHR ''}'' \<Longrightarrow>
   parse_value (Suc n) (CHR ''{'' # x # cs) =
     (case parse_members n (x # cs) of
        Inl e \<Rightarrow> Inl e | Inr (ms, r') \<Rightarrow> Inr (JObj (object_of ms), r'))"
  by (simp add: skip_ws_def is_ws_def del: parse_members.simps)

lemma pv_literals:
  "parse_value (Suc n) (''true'' @ r) = Inr (JBool True, r)"
  "parse_value (Suc n) (''false'' @ r) = Inr (JBool False, r)"
  "parse_value (Suc n) (''null'' @ r) = Inr (JNull, r)"
  by (simp_all add: skip_ws_def is_ws_def parse_literal_def)

lemma pv_number:
  assumes "c = CHR ''-'' \<or> is_digit c"
  shows "parse_value (Suc n) (c # cs) = parse_number (c # cs)"
proof -
  from assms have "\<not> is_ws c" "c \<noteq> CHR 0x22" "c \<noteq> CHR ''[''" "c \<noteq> CHR ''{''"
    "c \<noteq> CHR ''t''" "c \<noteq> CHR ''f''" "c \<noteq> CHR ''n''"
    by (auto simp: is_ws_def is_digit_def)
  with assms show ?thesis by (simp add: skip_ws_def)
qed

lemma number_text_first: "\<exists>c cs. number_text i = c # cs \<and> (c = CHR ''-'' \<or> is_digit c)"
proof (cases "i < 0")
  case True
  then show ?thesis by (simp add: number_text_def)
next
  case False
  obtain c cs where d: "digits (nat i) = c # cs"
    using digits_nonempty [of "nat i"] by (cases "digits (nat i)") auto
  with digits_all [of c "nat i"] False show ?thesis by (simp add: number_text_def)
qed

text \<open>The text of a value starts with a character that is neither blank nor a closing bracket.\<close>

lemma json_text_first:
  "\<exists>c cs. json_text v = c # cs \<and> \<not> is_ws c \<and> c \<noteq> CHR '']'' \<and> c \<noteq> CHR ''}''"
proof (cases v)
  case (JNum i)
  from number_text_first [of i] obtain c cs
    where "number_text i = c # cs" "c = CHR ''-'' \<or> is_digit c" by blast
  with JNum show ?thesis by (auto simp: is_ws_def is_digit_def)
qed (auto simp: is_ws_def QuoteJSONString_def)


lemma skip_ws_marks:
  "skip_ws (CHR '','' # r) = CHR '','' # r" "skip_ws (CHR '']'' # r) = CHR '']'' # r"
  "skip_ws (CHR ''}'' # r) = CHR ''}'' # r" "skip_ws (CHR '':'' # r) = CHR '':'' # r"
  "skip_ws (CHR 0x22 # r) = CHR 0x22 # r"
  by (simp_all add: skip_ws_def is_ws_def)

lemma value_end_marks:
  "value_end (CHR '','' # r)" "value_end (CHR '']'' # r)" "value_end (CHR ''}'' # r)" "value_end []"
  by (simp_all add: value_end_def)

lemma elements_rt:
  assumes each: "\<And>v n rest. v \<in> set vs \<Longrightarrow> wf_keys v \<Longrightarrow> value_end rest \<Longrightarrow>
      2 * length (json_text v) \<le> n \<Longrightarrow> parse_value n (json_text v @ rest) = Inr (jsonify v, rest)"
    and "vs \<noteq> []" and "list_all wf_keys vs"
    and "2 * length (join_comma (map json_text vs)) + 1 \<le> n"
  shows "parse_elements n (join_comma (map json_text vs) @ CHR '']'' # rest)
           = Inr (map jsonify vs, rest)"
  using assms
proof (induction vs arbitrary: n)
  case Nil
  then show ?case by simp
next
  case (Cons v vs)
  from Cons.prems(4) obtain k where n: "n = Suc k" by (cases n) auto
  from Cons.prems(3) have wf: "wf_keys v" and wfs: "list_all wf_keys vs" by simp_all
  show ?case
  proof (cases vs)
    case Nil
    from Cons.prems(4) have fuel: "2 * length (json_text v) \<le> k"
      by (simp add: n Nil)
    have "parse_value k (json_text v @ CHR '']'' # rest) = Inr (jsonify v, CHR '']'' # rest)"
      by (rule Cons.prems(1)) (simp_all add: wf fuel value_end_marks)
    then show ?thesis
      by (simp add: Nil n skip_ws_marks)
  next
    case (Cons w ws)
    let ?tail = "join_comma (map json_text (w # ws))"
    from Cons.prems(4) have fuel: "2 * length (json_text v) \<le> k"
      and fuel': "2 * length ?tail + 1 \<le> k"
      by (simp_all add: n Cons)
    have head: "parse_value k (json_text v @ CHR '','' # ?tail @ CHR '']'' # rest)
        = Inr (jsonify v, CHR '','' # ?tail @ CHR '']'' # rest)"
      by (rule Cons.prems(1)) (simp_all add: wf fuel value_end_marks)
    have tail: "parse_elements k (?tail @ CHR '']'' # rest) = Inr (map jsonify (w # ws), rest)"
      using Cons.IH [of k] Cons.prems(1) wfs fuel' by (simp add: Cons)
    show ?thesis
      using head tail by (simp add: Cons n skip_ws_marks del: parse_value.simps)
  qed
qed

lemma members_rt:
  assumes each: "\<And>kv n rest. kv \<in> set ps \<Longrightarrow> wf_keys (snd kv) \<Longrightarrow> value_end rest \<Longrightarrow>
      2 * length (json_text (snd kv)) \<le> n \<Longrightarrow>
      parse_value n (json_text (snd kv) @ rest) = Inr (jsonify (snd kv), rest)"
    and "ps \<noteq> []" and "list_all (\<lambda>kv. wf_keys (snd kv)) ps"
    and "2 * length (join_comma (map (\<lambda>kv. QuoteJSONString (fst kv) @ CHR '':'' # json_text (snd kv)) ps))
           + 1 \<le> n"
  shows "parse_members n
           (join_comma (map (\<lambda>kv. QuoteJSONString (fst kv) @ CHR '':'' # json_text (snd kv)) ps)
              @ CHR ''}'' # rest)
           = Inr (map (\<lambda>kv. (fst kv, jsonify (snd kv))) ps, rest)"
  using assms
proof (induction ps arbitrary: n)
  case Nil
  then show ?case by simp
next
  case (Cons p ps)
  let ?member = "\<lambda>kv. QuoteJSONString (fst kv) @ CHR '':'' # json_text (snd kv)"
  from Cons.prems(4) obtain k where n: "n = Suc k" by (cases n) auto
  from Cons.prems(3) have wf: "wf_keys (snd p)" and wfs: "list_all (\<lambda>kv. wf_keys (snd kv)) ps"
    by simp_all
  have key: "parse_chars (concat (map escape_char (fst p)) @ CHR 0x22 # r) = Inr (fst p, r)" for r
    by (rule parse_chars_escaped)
  show ?case
  proof (cases ps)
    case Nil
    from Cons.prems(4) have fuel: "2 * length (json_text (snd p)) \<le> k"
      by (simp add: n Nil)
    have "parse_value k (json_text (snd p) @ CHR ''}'' # rest) = Inr (jsonify (snd p), CHR ''}'' # rest)"
      by (rule Cons.prems(1)) (simp_all add: wf fuel value_end_marks)
    then show ?thesis
      by (simp add: Nil n QuoteJSONString_def skip_ws_marks key del: parse_value.simps)
  next
    case (Cons q qs)
    let ?tail = "join_comma (map ?member (q # qs))"
    from Cons.prems(4) have fuel: "2 * length (json_text (snd p)) \<le> k"
      and fuel': "2 * length ?tail + 1 \<le> k"
      by (simp_all add: n Cons)
    have head: "parse_value k (json_text (snd p) @ CHR '','' # ?tail @ CHR ''}'' # rest)
        = Inr (jsonify (snd p), CHR '','' # ?tail @ CHR ''}'' # rest)"
      by (rule Cons.prems(1)) (simp_all add: wf fuel value_end_marks)
    have tail: "parse_members k (?tail @ CHR ''}'' # rest)
        = Inr (map (\<lambda>kv. (fst kv, jsonify (snd kv))) (q # qs), rest)"
      using Cons.IH [of k] Cons.prems(1) wfs fuel' by (simp add: Cons)
    show ?thesis
      using head tail
      by (simp add: Cons n QuoteJSONString_def skip_ws_marks key del: parse_value.simps)
  qed
qed


lemma join_comma_first:
  assumes "ts \<noteq> []" and "\<And>t. t \<in> set ts \<Longrightarrow> \<exists>c cs. t = c # cs \<and> P c"
  shows "\<exists>c cs. join_comma ts = c # cs \<and> P c"
proof (cases ts)
  case Nil
  with assms(1) show ?thesis by simp
next
  case (Cons t ts')
  from assms(2) [of t] Cons obtain c cs where t: "t = c # cs" "P c" by auto
  with Cons show ?thesis by (cases ts') auto
qed

lemma object_of_distinct: "distinct (map fst ms) \<Longrightarrow> object_of ms = ms"
  using spread_empty [of ms] by (simp add: object_of_def spread_def)

text \<open>
  \<open>JSON.parse\<close> reads the text of a value back, up to what \<open>jsonify\<close> describes, whatever
  follows the value and with any bound of at least twice the length of the text.
\<close>

lemma value_rt:
  "wf_keys v \<Longrightarrow> value_end rest \<Longrightarrow> 2 * length (json_text v) \<le> n \<Longrightarrow>
   parse_value n (json_text v @ rest) = Inr (jsonify v, rest)"
proof (induction v arbitrary: n rest)
  case JUndefined
  then obtain k where "n = Suc k" by (cases n) auto
  then show ?case using pv_literals(3) [of k rest] by simp
next
  case JNull
  then obtain k where "n = Suc k" by (cases n) auto
  then show ?case using pv_literals(3) [of k rest] by simp
next
  case (JBool b)
  then obtain k where "n = Suc k" by (cases n; cases b) auto
  then show ?case using pv_literals(1,2) [of k rest] by (cases b) simp_all
next
  case (JNum i)
  from number_text_first [of i] obtain c cs
    where first: "number_text i = c # cs" "c = CHR ''-'' \<or> is_digit c" by blast
  with JNum.prems obtain k where n: "n = Suc k" by (cases n) auto
  have "parse_value (Suc k) (c # cs @ rest) = parse_number (c # cs @ rest)"
    by (rule pv_number) (rule first(2))
  with parse_number_text [OF JNum.prems(2), of i] first(1) n show ?case by simp
next
  case (JStr str)
  then obtain k where n: "n = Suc k" by (cases n) (auto simp: QuoteJSONString_def)
  show ?case
    by (simp add: n QuoteJSONString_def pv_string parse_chars_escaped del: parse_value.simps)
next
  case (JArr vs)
  from JArr.prems(3) obtain k where n: "n = Suc k" by (cases n) auto
  show ?case
  proof (cases "vs = []")
    case True
    then show ?thesis by (simp add: n pv_array_empty del: parse_value.simps)
  next
    case False
    let ?body = "join_comma (map json_text vs)"
    have "\<exists>c cs. ?body = c # cs \<and> (\<not> is_ws c \<and> c \<noteq> CHR '']'' \<and> c \<noteq> CHR ''}'')"
      by (rule join_comma_first) (use False json_text_first in auto)
    then obtain c cs where body: "?body = c # cs" and c: "\<not> is_ws c" "c \<noteq> CHR '']''"
      by blast
    from JArr.prems(3) have fuel: "2 * length ?body + 1 \<le> k" by (simp add: n)
    from JArr.prems(1) have wfs: "list_all wf_keys vs" by simp
    have "parse_elements k (?body @ CHR '']'' # rest) = Inr (map jsonify vs, rest)"
      by (rule elements_rt [OF JArr.IH False wfs fuel])
    then have "parse_value (Suc k) (CHR ''['' # c # cs @ CHR '']'' # rest)
        = Inr (JArr (map jsonify vs), rest)"
      by (simp add: pv_array [OF c] body del: parse_value.simps)
    then show ?thesis by (simp add: n body del: parse_value.simps)
  qed
next
  case (JObj ps)
  from JObj.prems(3) obtain k where n: "n = Suc k" by (cases n) auto
  let ?member = "\<lambda>kv. QuoteJSONString (fst kv) @ CHR '':'' # json_text (snd kv)"
  define qs where "qs = filter (\<lambda>kv. snd kv \<noteq> JUndefined) ps"
  let ?body = "join_comma (map ?member qs)"
  have shape: "json_text (JObj ps) = CHR ''{'' # ?body @ ''}''"
    and result: "jsonify (JObj ps) = JObj (map (\<lambda>kv. (fst kv, jsonify (snd kv))) qs)"
    by (simp_all add: qs_def)
  show ?case
  proof (cases "qs = []")
    case True
    then show ?thesis
      by (simp only: shape result) (simp add: n pv_object_empty del: parse_value.simps)
  next
    case False
    have "\<exists>c cs. ?body = c # cs \<and> c = CHR 0x22"
      by (rule join_comma_first) (use False in \<open>auto simp: QuoteJSONString_def\<close>)
    then obtain cs where body: "?body = CHR 0x22 # cs" by blast
    have c: "\<not> is_ws (CHR 0x22)" "CHR 0x22 \<noteq> CHR ''}''" by (simp_all add: is_ws_def)
    from JObj.prems(3) have fuel: "2 * length ?body + 1 \<le> k"
      by (simp only: shape) (simp add: n)
    from JObj.prems(1) have wfs: "list_all (\<lambda>kv. wf_keys (snd kv)) qs"
      and dist: "distinct (map fst qs)"
      by (simp_all add: qs_def list_all_iff distinct_map_filter)
    have each: "parse_value m (json_text (snd kv) @ r) = Inr (jsonify (snd kv), r)"
      if "kv \<in> set qs" "wf_keys (snd kv)" "value_end r" "2 * length (json_text (snd kv)) \<le> m"
      for kv m r
    proof (rule JObj.IH)
      from that(1) show "kv \<in> set ps" by (simp add: qs_def)
      show "snd kv \<in> Basic_BNFs.snds kv" by (rule snds.intros)
    qed (use that in simp_all)
    have "parse_members k (?body @ CHR ''}'' # rest)
        = Inr (map (\<lambda>kv. (fst kv, jsonify (snd kv))) qs, rest)"
      by (rule members_rt [OF each False wfs fuel])
    moreover have "object_of (map (\<lambda>kv. (fst kv, jsonify (snd kv))) qs)
        = map (\<lambda>kv. (fst kv, jsonify (snd kv))) qs"
      by (rule object_of_distinct) (simp add: dist comp_def)
    ultimately have "parse_value (Suc k) (CHR ''{'' # CHR 0x22 # cs @ CHR ''}'' # rest)
        = Inr (JObj (map (\<lambda>kv. (fst kv, jsonify (snd kv))) qs), rest)"
      by (simp add: pv_object [OF c] body del: parse_value.simps)
    then show ?thesis
      by (simp only: shape result) (simp add: n body del: parse_value.simps)
  qed
qed

lemma JSON_round_trip: "wf_keys v \<Longrightarrow> JSON_parse (json_text v) = Inr (jsonify v)"
  using value_rt [of v "[]" "Suc (2 * length (json_text v))"]
  by (simp add: JSON_parse_def value_end_marks skip_ws_def del: parse_value.simps)

subsection \<open>The escape and its inverse\<close>

lemma decode_escape: "CHR ''^'' \<notin> set t \<Longrightarrow> umi_decode (escape_quotes t) = t"
  by (induction t) (auto simp: umi_decode_def escape_quotes_def)

lemma escape_char_caret: "CHR ''^'' \<in> set (escape_char c) \<longleftrightarrow> c = CHR ''^''"
proof (cases "c = CHR ''^''")
  case True
  then show ?thesis by (simp add: escape_char_def)
next
  case False
  then show ?thesis by (simp add: escape_char_def digit_char_not_caret)
qed

lemma quoted_caret: "CHR ''^'' \<in> set (QuoteJSONString s) \<longleftrightarrow> CHR ''^'' \<in> set s"
  by (induction s) (auto simp: QuoteJSONString_def escape_char_caret)

lemma number_text_caret: "CHR ''^'' \<notin> set (number_text i)"
proof -
  have "\<not> is_digit (CHR ''^'')" by (simp add: is_digit_def)
  with digits_all [of "CHR ''^''"] have "CHR ''^'' \<notin> set (digits n)" for n by blast
  then show ?thesis by (simp add: number_text_def)
qed

lemma join_comma_caret:
  "(\<And>t. t \<in> set ts \<Longrightarrow> CHR ''^'' \<notin> set t) \<Longrightarrow> CHR ''^'' \<notin> set (join_comma ts)"
  by (induction ts rule: join_comma.induct) auto

lemma json_text_caret: "caret_free v \<Longrightarrow> CHR ''^'' \<notin> set (json_text v)"
proof (induction v)
  case (JArr vs)
  have "CHR ''^'' \<notin> set (join_comma (map json_text vs))"
  proof (rule join_comma_caret)
    fix t assume "t \<in> set (map json_text vs)"
    then obtain v where v: "v \<in> set vs" and t: "t = json_text v" by auto
    from v JArr.prems have "caret_free v" by (simp add: list_all_iff)
    from JArr.IH [OF v this] t show "CHR ''^'' \<notin> set t" by simp
  qed
  then show ?case by simp
next
  case (JObj ps)
  let ?member = "\<lambda>kv. QuoteJSONString (fst kv) @ CHR '':'' # json_text (snd kv)"
  let ?qs = "filter (\<lambda>kv. snd kv \<noteq> JUndefined) ps"
  have "CHR ''^'' \<notin> set (join_comma (map ?member ?qs))"
  proof (rule join_comma_caret)
    fix t assume "t \<in> set (map ?member ?qs)"
    then obtain kv where kv: "kv \<in> set ps" and t: "t = ?member kv" by auto
    from kv JObj.prems have k: "CHR ''^'' \<notin> set (fst kv)" and v: "caret_free (snd kv)"
      by (simp_all add: list_all_iff)
    have "CHR ''^'' \<notin> set (json_text (snd kv))"
      by (rule JObj.IH [OF kv _ v]) (rule snds.intros)
    with k t show "CHR ''^'' \<notin> set t" by (simp add: quoted_caret)
  qed
  then show ?case by simp
next
  case (JStr str)
  then show ?case by (simp add: quoted_caret)
next
  case (JNum i)
  then show ?case by (simp add: number_text_caret)
qed simp_all

text \<open>
  Without a caret in the data the text that the host decodes is the JSON text itself, and
  the object read from it is the metadata object up to what JSON keeps. Double quotes,
  backslashes and control characters in the strings are no obstacle.
\<close>

lemma round_trip_without_caret:
  assumes "caret_free (JObj m)" and "wf_keys (JObj m)"
  shows "umi_decode (serialize m) = json_text (JObj m)"
    and "JSON_parse (umi_decode (serialize m)) = Inr (jsonify (JObj m))"
proof -
  show 1: "umi_decode (serialize m) = json_text (JObj m)"
    unfolding serialize_def by (rule decode_escape) (rule json_text_caret [OF assms(1)])
  show "JSON_parse (umi_decode (serialize m)) = Inr (jsonify (JObj m))"
    unfolding 1 by (rule JSON_round_trip [OF assms(2)])
qed

section \<open>The props at mount time\<close>

text \<open>The text of the rewritten component is the template around the two spread elements.\<close>

lemma root_component_spreads:
  "root_component target meta_text =
     ''(props) => require('' @ [CHR 0x27] @ ''react'' @ [CHR 0x27] @
     '').createElement(require('' @ [CHR 0x27] @ template_string target @ [CHR 0x27] @
     '').default, {'' @
     concat (map (\<lambda>arg. [CHR 0x0A] @ ''      '' @ print_spread arg @ '','')
               (props_spreads meta_text)) @
     [CHR 0x0A] @ ''    })''"
  by (simp add: root_component_def props_spreads_def)

text \<open>
  The order of the spreads is right: whatever object the embedded literal holds, a key of
  the runtime props has the runtime value and any other key has the value of that object.
\<close>

lemma runtime_props_win:
  assumes literal: "JSON_parse (umi_decode meta_text) = Inr (JObj m)"
    and runtime: "distinct (map fst runtime)"
  shows "mount_props meta_text runtime = Inr (spread m runtime)"
    and "fst ` set (spread m runtime) = fst ` set m \<union> fst ` set runtime"
    and "js_get (spread m runtime) k =
           (if k \<in> fst ` set runtime then js_get runtime k else js_get m k)"
proof -
  have "spread [] m = m"
    by (rule spread_empty) (rule JSON_parse_object [OF literal])
  then show "mount_props meta_text runtime = Inr (spread m runtime)"
    by (simp add: mount_props_def props_spreads_def literal)
  show "fst ` set (spread m runtime) = fst ` set m \<union> fst ` set runtime"
    by (rule keys_spread)
  show "js_get (spread m runtime) k =
           (if k \<in> fst ` set runtime then js_get runtime k else js_get m k)"
    by (rule js_get_spread [OF runtime])
qed

text \<open>
  With no caret in the metadata the literal holds the metadata object (as JSON keeps it),
  so the props are the metadata merged with the runtime props.
\<close>

lemma mount_props_without_caret:
  assumes "caret_free (JObj m)" and "wf_keys (JObj m)" and "distinct (map fst runtime)"
  shows "mount_props (serialize m) runtime =
           Inr (spread (map (\<lambda>kv. (fst kv, jsonify (snd kv)))
                          (filter (\<lambda>kv. snd kv \<noteq> JUndefined) m)) runtime)"
  using runtime_props_win(1) [OF _ assms(3), of "serialize m"]
    round_trip_without_caret(2) [OF assms(1,2)]
  by simp

text \<open>
  C4. The props the component receives are not, for every metadata object, that object
  merged with the runtime props. The configured title \<open>Docs^,^logo^:^/evil.png\<close> reaches
  the metadata object unchanged and the object has no logo; after the escape and the
  host's decoding the literal holds the title \<open>Docs\<close> and a logo, and the component, given
  runtime props with neither key, receives both. With the title \<open>Docs ^ Demos\<close> the
  literal is not an object at all. For the metadata without a caret the props are as
  stated, \<open>mode\<close> taken from the runtime props.
\<close>

theorem caret_changes_mount_props:
  "js_get forged_meta ''title'' = JStr ''Docs^,^logo^:^/evil.png'' \<and>
   js_get forged_meta ''logo'' = JUndefined \<and>
   example_runtime = [(''mode'', JStr ''site''), (''lang'', JStr ''en'')] \<and>
   mount_props (serialize forged_meta) example_runtime =
     Inr [(''menus'', JArr [JStr ''/guide'']), (''locales'', default_locales),
          (''title'', JStr ''Docs''), (''logo'', JStr ''/evil.png''),
          (''mode'', JStr ''site''), (''lang'', JStr ''en'')] \<and>
   mount_props (serialize caret_meta) example_runtime = Inl SyntaxError \<and>
   mount_props (serialize example_meta) example_runtime =
     Inr [(''menus'', JArr [JStr ''/guide'']), (''title'', JStr ''Site''),
          (''mode'', JStr ''site''), (''lang'', JStr ''en'')]"
proof -
  have 1: "js_get forged_meta ''title'' = JStr ''Docs^,^logo^:^/evil.png''" by code_simp
  have 2: "js_get forged_meta ''logo'' = JUndefined" by code_simp
  have 3: "example_runtime = [(''mode'', JStr ''site''), (''lang'', JStr ''en'')]"
    by (simp add: example_runtime_def)
  have 4: "mount_props (serialize forged_meta) example_runtime =
     Inr [(''menus'', JArr [JStr ''/guide'']), (''locales'', default_locales),
          (''title'', JStr ''Docs''), (''logo'', JStr ''/evil.png''),
          (''mode'', JStr ''site''), (''lang'', JStr ''en'')]"
    by code_simp
  have 5: "mount_props (serialize caret_meta) example_runtime = Inl SyntaxError" by code_simp
  have 6: "mount_props (serialize example_meta) example_runtime =
     Inr [(''menus'', JArr [JStr ''/guide'']), (''title'', JStr ''Site''),
          (''mode'', JStr ''site''), (''lang'', JStr ''en'')]"
    by code_simp
  from 1 2 3 4 5 6 show ?thesis by blast
qed

section \<open>The round trip of the serialized metadata\<close>

text \<open>
  C1. The round trip fails on a caret. With the title \<open>Docs ^ Demos\<close> configured, the
  metadata handed to the injector has that title; plain \<open>JSON.stringify\<close> and \<open>JSON.parse\<close>
  would give the object back; the escaped text decodes to text that is not JSON. With
  the title \<open>Docs^,^logo^:^/evil.png\<close> the decoded text is the JSON of another object.
  Under the same decoding a double quote and a control character come back as they were.
\<close>

theorem caret_breaks_round_trip:
  "js_get caret_meta ''title'' = JStr ''Docs ^ Demos'' \<and>
   map fst caret_meta =
     [''menus'', ''locales'', ''navs'', ''title'', ''logo'', ''desc'', ''mode'', ''repoUrl''] \<and>
   JSON_parse (json_text (JObj caret_meta)) = Inr (jsonify (JObj caret_meta)) \<and>
   js_member (jsonify (JObj caret_meta)) ''title'' = JStr ''Docs ^ Demos'' \<and>
   umi_decode (serialize caret_meta) \<noteq> json_text (JObj caret_meta) \<and>
   JSON_parse (umi_decode (serialize caret_meta)) = Inl SyntaxError \<and>
   js_get forged_meta ''title'' = JStr ''Docs^,^logo^:^/evil.png'' \<and>
   JSON_parse (umi_decode (serialize forged_meta)) =
     Inr (JObj [(''menus'', JArr [JStr ''/guide'']), (''locales'', default_locales),
                (''title'', JStr ''Docs''), (''logo'', JStr ''/evil.png''),
                (''mode'', JStr ''doc'')]) \<and>
   JSON_parse (umi_decode (serialize [(''title'', JStr [CHR ''a'', CHR 0x22, CHR 0x0A, CHR 0x01])])) =
     Inr (JObj [(''title'', JStr [CHR ''a'', CHR 0x22, CHR 0x0A, CHR 0x01])])"
proof -
  have 1: "js_get caret_meta ''title'' = JStr ''Docs ^ Demos''" by code_simp
  have 2: "map fst caret_meta =
     [''menus'', ''locales'', ''navs'', ''title'', ''logo'', ''desc'', ''mode'', ''repoUrl'']"
    by code_simp
  have "wf_keys (JObj caret_meta)" by code_simp
  then have 3: "JSON_parse (json_text (JObj caret_meta)) = Inr (jsonify (JObj caret_meta))"
    by (rule JSON_round_trip)
  have 4: "js_member (jsonify (JObj caret_meta)) ''title'' = JStr ''Docs ^ Demos''"
    by code_simp
  have 5: "umi_decode (serialize caret_meta) \<noteq> json_text (JObj caret_meta)" by code_simp
  have 6: "JSON_parse (umi_decode (serialize caret_meta)) = Inl SyntaxError" by code_simp
  have 7: "js_get forged_meta ''title'' = JStr ''Docs^,^logo^:^/evil.png''" by code_simp
  have 8: "JSON_parse (umi_decode (serialize forged_meta)) =
     Inr (JObj [(''menus'', JArr [JStr ''/guide'']), (''locales'', default_locales),
                (''title'', JStr ''Docs''), (''logo'', JStr ''/evil.png''),
                (''mode'', JStr ''doc'')])"
    by code_simp
  have 9: "JSON_parse (umi_decode (serialize [(''title'', JStr [CHR ''a'', CHR 0x22, CHR 0x0A, CHR 0x01])])) =
     Inr (JObj [(''title'', JStr [CHR ''a'', CHR 0x22, CHR 0x0A, CHR 0x01])])"
    by code_simp
  from 1 2 3 4 5 6 7 8 9 show ?thesis by blast
qed

end
